theory Spec2Isabelle
  imports Complex_Main
begin

section \<open>The fragment of numpy used by the solver\<close>

text \<open>
  The adapter in \<^verbatim>\<open>beluga/solvers/bvp_solvers/SPBVP.py\<close> never computes with the
  entries of its arrays: it slices, stacks, transposes and zero-fills them. The entries
  are therefore taken as reals, and an array carries its shape explicitly, since shapes
  with a zero axis (\<^verbatim>\<open>(N, 0)\<close> against \<^verbatim>\<open>(0, N)\<close>) decide which numpy call raises.

  A one-axis array is a list. A two-axis array is its list of rows together with its
  column count (the row count is the length of the list). Arrays of zero, one and two
  axes are the values a user-supplied function may return; arrays of more axes are
  outside the model.
\<close>

type_synonym vec = "real list"

datatype mat = Mat (ncols: nat) (rows: "vec list")

datatype ndarray = Arr0 real | Arr1 vec | Arr2 mat

text \<open>
  A three-axis array of shape \<^verbatim>\<open>(dim0, dim1, dim2)\<close>, indexed
  \<^verbatim>\<open>[row, column, node]\<close>: \<open>cells a ! i ! j ! n\<close>.
\<close>

datatype arr3 = Arr3 (dim0: nat) (dim1: nat) (dim2: nat) (cells: "real list list list")

text \<open>The exceptions numpy raises in this fragment.\<close>

datatype error = ValueError | IndexError

definition wf_mat :: "mat \<Rightarrow> bool" where
  "wf_mat m = list_all (\<lambda>r. length r = ncols m) (rows m)"

fun wf_ndarray :: "ndarray \<Rightarrow> bool" where
  "wf_ndarray (Arr2 m) = wf_mat m"
| "wf_ndarray _ = True"

text \<open>\<^verbatim>\<open>a.size\<close>: the number of entries.\<close>

fun np_size :: "ndarray \<Rightarrow> nat" where
  "np_size (Arr0 x) = 1"
| "np_size (Arr1 v) = length v"
| "np_size (Arr2 m) = length (rows m) * ncols m"

text \<open>\<^verbatim>\<open>len(a.shape)\<close>.\<close>

fun ndim :: "ndarray \<Rightarrow> nat" where
  "ndim (Arr0 x) = 0"
| "ndim (Arr1 v) = 1"
| "ndim (Arr2 m) = 2"

text \<open>\<^verbatim>\<open>a.shape[1]\<close>: the shape tuple of an array of fewer than two axes has no entry 1.\<close>

fun shape1 :: "ndarray \<Rightarrow> error + nat" where
  "shape1 (Arr2 m) = Inr (ncols m)"
| "shape1 _ = Inl IndexError"

text \<open>\<^verbatim>\<open>m.T\<close> on two axes; on fewer axes \<^verbatim>\<open>.T\<close> returns the array itself.\<close>

definition transpose_mat :: "mat \<Rightarrow> mat" where
  "transpose_mat m = Mat (length (rows m)) (map (\<lambda>j. map (\<lambda>r. r ! j) (rows m)) [0..<ncols m])"

fun np_T :: "ndarray \<Rightarrow> ndarray" where
  "np_T (Arr2 m) = Arr2 (transpose_mat m)"
| "np_T a = a"

text \<open>\<^verbatim>\<open>v[a:b]\<close> for \<^verbatim>\<open>0 <= a <= b\<close>; \<^verbatim>\<open>v[:n]\<close> is \<open>take n v\<close>. Slices never raise.\<close>

definition slice :: "nat \<Rightarrow> nat \<Rightarrow> 'a list \<Rightarrow> 'a list" where
  "slice a b v = take (b - a) (drop a v)"

text \<open>\<^verbatim>\<open>m[:, a:b]\<close>: the columns \<open>a\<close> up to \<open>b\<close> of every row.\<close>

definition cols_slice :: "nat \<Rightarrow> nat \<Rightarrow> mat \<Rightarrow> mat" where
  "cols_slice a b m = Mat (min b (ncols m) - min a (ncols m)) (map (slice a b) (rows m))"

text \<open>\<^verbatim>\<open>np.zeros((r, c))\<close>, \<^verbatim>\<open>np.zeros_like(m)\<close> and \<^verbatim>\<open>np.zeros((r, c, n))\<close>.\<close>

definition zeros :: "nat \<Rightarrow> nat \<Rightarrow> mat" where
  "zeros r c = Mat c (replicate r (replicate c 0))"

definition zeros_like :: "mat \<Rightarrow> mat" where
  "zeros_like m = zeros (length (rows m)) (ncols m)"

definition zeros3 :: "nat \<Rightarrow> nat \<Rightarrow> nat \<Rightarrow> arr3" where
  "zeros3 r c n = Arr3 r c n (replicate r (replicate c (replicate n 0)))"

text \<open>
  \<^verbatim>\<open>np.vstack\<close> of a list of one-axis arrays: each becomes a row. It raises
  \<^verbatim>\<open>ValueError\<close> on the empty list and on rows of different lengths.
\<close>

fun vstack :: "vec list \<Rightarrow> error + mat" where
  "vstack [] = Inl ValueError"
| "vstack (v # vs) =
     (if list_all (\<lambda>w. length w = length v) vs then Inr (Mat (length v) (v # vs))
      else Inl ValueError)"

text \<open>
  \<^verbatim>\<open>np.hstack((a, b))\<close>: both arguments pass through \<^verbatim>\<open>atleast_1d\<close>; if the first
  has one axis they are concatenated along axis 0, else along axis 1. Concatenation
  raises \<^verbatim>\<open>ValueError\<close> when the numbers of axes differ and, along axis 1, when the
  row counts differ.
\<close>

fun atleast_1d :: "ndarray \<Rightarrow> ndarray" where
  "atleast_1d (Arr0 x) = Arr1 [x]"
| "atleast_1d a = a"

definition hstack_mat :: "mat \<Rightarrow> mat \<Rightarrow> error + mat" where
  "hstack_mat m n =
     (if length (rows m) = length (rows n)
      then Inr (Mat (ncols m + ncols n) (map2 (@) (rows m) (rows n)))
      else Inl ValueError)"

fun hstack1 :: "ndarray \<Rightarrow> ndarray \<Rightarrow> error + ndarray" where
  "hstack1 (Arr1 u) (Arr1 v) = Inr (Arr1 (u @ v))"
| "hstack1 (Arr2 m) (Arr2 n) =
     (case hstack_mat m n of Inl e \<Rightarrow> Inl e | Inr r \<Rightarrow> Inr (Arr2 r))"
| "hstack1 _ _ = Inl ValueError"

definition hstack :: "ndarray \<Rightarrow> ndarray \<Rightarrow> error + ndarray" where
  "hstack a b = hstack1 (atleast_1d a) (atleast_1d b)"

text \<open>
  Assignment \<^verbatim>\<open>a[:, :, ii] = v\<close> into a three-axis array. The index is resolved first
  (\<^verbatim>\<open>IndexError\<close> when \<open>ii\<close> is out of bounds for axis 2); then \<open>v\<close> is broadcast
  to the shape \<^verbatim>\<open>(dim0, dim1)\<close> of the slice: a one-axis value counts as a single row,
  and an axis of \<open>v\<close> must have the extent of the target axis or extent 1, otherwise
  numpy raises \<^verbatim>\<open>ValueError\<close> (could not broadcast).
\<close>

definition broadcast_mat :: "nat \<Rightarrow> nat \<Rightarrow> mat \<Rightarrow> error + vec list" where
  "broadcast_mat r c m =
     (if (length (rows m) = r \<or> length (rows m) = 1) \<and> (ncols m = c \<or> ncols m = 1)
      then Inr (map (\<lambda>i. map (\<lambda>j. rows m ! (if length (rows m) = 1 then 0 else i)
                                          ! (if ncols m = 1 then 0 else j)) [0..<c]) [0..<r])
      else Inl ValueError)"

fun broadcast_to :: "nat \<Rightarrow> nat \<Rightarrow> ndarray \<Rightarrow> error + vec list" where
  "broadcast_to r c (Arr0 x) = Inr (replicate r (replicate c x))"
| "broadcast_to r c (Arr1 v) = broadcast_mat r c (Mat (length v) [v])"
| "broadcast_to r c (Arr2 m) = broadcast_mat r c m"

definition put_node :: "arr3 \<Rightarrow> nat \<Rightarrow> vec list \<Rightarrow> arr3" where
  "put_node a ii blk =
     Arr3 (dim0 a) (dim1 a) (dim2 a)
       (map2 (\<lambda>row brow. map2 (\<lambda>cell x. cell[ii := x]) row brow) (cells a) blk)"

definition setitem_node :: "arr3 \<Rightarrow> nat \<Rightarrow> ndarray \<Rightarrow> error + arr3" where
  "setitem_node a ii v =
     (if dim2 a \<le> ii then Inl IndexError
      else case broadcast_to (dim0 a) (dim1 a) v of
             Inl e \<Rightarrow> Inl e
           | Inr blk \<Rightarrow> Inr (put_node a ii blk))"

text \<open>\<^verbatim>\<open>a[:, :, ii]\<close> read back as rows, and the column \<open>i\<close> of a matrix.\<close>

definition node_block :: "arr3 \<Rightarrow> nat \<Rightarrow> vec list" where
  "node_block a ii = map (map (\<lambda>cell. cell ! ii)) (cells a)"

definition column :: "mat \<Rightarrow> nat \<Rightarrow> vec" where
  "column m i = map (\<lambda>r. r ! i) (rows m)"


section \<open>The solver object and the closures built by \<^verbatim>\<open>solve\<close>\<close>

text \<open>
  The attributes of an \<^verbatim>\<open>SPBVP\<close> object that \<^verbatim>\<open>solve\<close> reads or writes. The five
  function attributes come from \<^verbatim>\<open>BaseAlgorithm\<close>; they are supplied by the caller
  and are taken to be pure. The derivative and quadrature functions receive
  \<^verbatim>\<open>(state, dynamic parameters, constants)\<close> and return a one-axis array. The boundary
  function is called with five or seven positional arrays, depending on the presence
  of quadratures, so its positional arguments are a list, the constants coming last.
  The two analytic Jacobians are optional (\<^verbatim>\<open>None\<close> when absent).
\<close>

record solver =
  derivative_function :: "vec \<Rightarrow> vec \<Rightarrow> ndarray \<Rightarrow> vec"
  quadrature_function :: "vec \<Rightarrow> vec \<Rightarrow> ndarray \<Rightarrow> vec"
  boundarycondition_function :: "vec list \<Rightarrow> ndarray \<Rightarrow> vec"
  derivative_function_jac :: "(vec \<Rightarrow> vec \<Rightarrow> ndarray \<Rightarrow> ndarray \<times> ndarray) option"
  boundarycondition_function_jac ::
    "(vec list \<Rightarrow> ndarray \<Rightarrow> ndarray \<times> ndarray \<times> ndarray) option"
  max_nodes :: int

text \<open>\<^verbatim>\<open>def return_nil(*_, **__): return np.array([])\<close>\<close>

definition return_nil :: "vec \<Rightarrow> vec \<Rightarrow> ndarray \<Rightarrow> vec" where
  "return_nil s p c = []"

text \<open>
  \<^verbatim>\<open>_fun(t, y, params, const)\<close>, lines 50 to 62. The engine passes \<open>y\<close> with one
  column per mesh node; \<^verbatim>\<open>y.T\<close> is iterated row by row.
\<close>

definition solve_fun ::
  "solver \<Rightarrow> nat \<Rightarrow> nat \<Rightarrow> nat \<Rightarrow> vec \<Rightarrow> mat \<Rightarrow> vec \<Rightarrow> ndarray \<Rightarrow> error + mat" where
  "solve_fun self nstates nquads ndyn t y params const =
     (if nquads = 0 then
        (case vstack (map (\<lambda>yi. derivative_function self (take nstates yi) (take ndyn params) const)
                      (rows (transpose_mat y))) of
           Inl e \<Rightarrow> Inl e
         | Inr o1 \<Rightarrow> Inr (transpose_mat o1))
      else
        (case vstack (map (\<lambda>yi. derivative_function self (take nstates yi) (take ndyn params) const)
                      (rows (transpose_mat y))) of
           Inl e \<Rightarrow> Inl e
         | Inr o1 \<Rightarrow>
            (case vstack (map (\<lambda>yi. quadrature_function self (take nstates yi) (take ndyn params) const)
                          (rows (transpose_mat y))) of
               Inl e \<Rightarrow> Inl e
             | Inr o2 \<Rightarrow>
                (case hstack_mat o1 o2 of
                   Inl e \<Rightarrow> Inl e
                 | Inr o12 \<Rightarrow> Inr (transpose_mat o12)))))"

text \<open>\<^verbatim>\<open>_bc(ya, yb, params, const)\<close>, lines 55 to 56 and 64 to 67.\<close>

definition solve_bc ::
  "solver \<Rightarrow> nat \<Rightarrow> nat \<Rightarrow> nat \<Rightarrow> nat \<Rightarrow> vec \<Rightarrow> vec \<Rightarrow> vec \<Rightarrow> ndarray \<Rightarrow> vec" where
  "solve_bc self nstates nquads ndyn nnondyn ya yb params const =
     (if nquads = 0 then
        boundarycondition_function self
          [ya, yb, take ndyn params, slice ndyn (ndyn + nnondyn) params] const
      else
        boundarycondition_function self
          [take nstates ya, slice nstates (nstates + nquads) ya,
           take nstates yb, slice nstates (nstates + nquads) yb,
           take ndyn params, slice ndyn (ndyn + nnondyn) params] const)"

text \<open>
  Lines 77 to 78: \<^verbatim>\<open>if nstates > 1 and len(_df_dp.shape) == 1: _df_dp = np.array([_df_dp]).T\<close>.
\<close>

definition promote :: "nat \<Rightarrow> ndarray \<Rightarrow> ndarray" where
  "promote nstates df_dp_raw =
     (if 1 < nstates \<and> ndim df_dp_raw = 1
      then (case df_dp_raw of
              Arr1 v \<Rightarrow> np_T (Arr2 (Mat (length v) [v]))
            | _ \<Rightarrow> df_dp_raw)
      else df_dp_raw)"

text \<open>
  The right-hand side of line 80:
  \<^verbatim>\<open>np.hstack((_df_dp, np.zeros((nstates, nnondyn))))\<close> after the promotion.
\<close>

definition padded_dp :: "nat \<Rightarrow> nat \<Rightarrow> ndarray \<Rightarrow> error + ndarray" where
  "padded_dp nstates nnondyn df_dp_raw =
     hstack (promote nstates df_dp_raw) (Arr2 (zeros nstates nnondyn))"

text \<open>
  The loop of lines 75 to 80 over \<^verbatim>\<open>enumerate(y)\<close>: \<open>ii\<close> is the node index, the
  list holds the nodes still to visit. The analytic function is called with the whole
  row \<open>yi\<close> (line 76). The tuple assignment stores the first result into
  \<^verbatim>\<open>df_dy[:, :, ii]\<close> before \<^verbatim>\<open>_df_dp\<close> is looked at.
\<close>

fun fun_jac_loop ::
  "(vec \<Rightarrow> vec \<Rightarrow> ndarray \<Rightarrow> ndarray \<times> ndarray) \<Rightarrow> nat \<Rightarrow> nat \<Rightarrow> nat \<Rightarrow> vec \<Rightarrow> ndarray \<Rightarrow>
   nat \<Rightarrow> vec list \<Rightarrow> arr3 \<Rightarrow> arr3 \<Rightarrow> error + (arr3 \<times> arr3)" where
  "fun_jac_loop jac nstates ndyn nnondyn params const ii [] df_dy df_dp = Inr (df_dy, df_dp)"
| "fun_jac_loop jac nstates ndyn nnondyn params const ii (yi # ys) df_dy df_dp =
     (case setitem_node df_dy ii (fst (jac yi (take ndyn params) const)) of
        Inl e \<Rightarrow> Inl e
      | Inr df_dy' \<Rightarrow>
         (case padded_dp nstates nnondyn (snd (jac yi (take ndyn params) const)) of
            Inl e \<Rightarrow> Inl e
          | Inr blk \<Rightarrow>
             (case setitem_node df_dp ii blk of
                Inl e \<Rightarrow> Inl e
              | Inr df_dp' \<Rightarrow>
                 fun_jac_loop jac nstates ndyn nnondyn params const (Suc ii) ys df_dy' df_dp')))"

text \<open>What \<^verbatim>\<open>_fun_jac\<close> returns: \<^verbatim>\<open>df_dy\<close> alone, or the pair \<^verbatim>\<open>df_dy, df_dp\<close>.\<close>

datatype jac_out = StateOnly arr3 | StateAndParams arr3 arr3

text \<open>
  \<^verbatim>\<open>_fun_jac(t, y, params, const)\<close>, lines 70 to 85. \<^verbatim>\<open>y[0]\<close> raises
  \<^verbatim>\<open>IndexError\<close> when the transposed matrix has no row.
\<close>

definition solve_fun_jac ::
  "(vec \<Rightarrow> vec \<Rightarrow> ndarray \<Rightarrow> ndarray \<times> ndarray) \<Rightarrow> nat \<Rightarrow> nat \<Rightarrow> nat \<Rightarrow>
   vec \<Rightarrow> mat \<Rightarrow> vec \<Rightarrow> ndarray \<Rightarrow> error + jac_out" where
  "solve_fun_jac jac nstates ndyn nnondyn t y params const =
     (case rows (transpose_mat y) of
        [] \<Rightarrow> Inl IndexError
      | y0 # ys \<Rightarrow>
         (case fun_jac_loop jac nstates ndyn nnondyn params const 0 (rows (transpose_mat y))
                 (zeros3 (length y0) (length y0) (length t))
                 (zeros3 (length y0) (ndyn + nnondyn) (length t)) of
            Inl e \<Rightarrow> Inl e
          | Inr (df_dy, df_dp) \<Rightarrow>
             (if ndyn + nnondyn = 0 then Inr (StateOnly df_dy)
              else Inr (StateAndParams df_dy df_dp))))"

text \<open>\<^verbatim>\<open>_bc_jac(ya, yb, params, const)\<close>, lines 89 to 103.\<close>

definition solve_bc_jac ::
  "(vec list \<Rightarrow> ndarray \<Rightarrow> ndarray \<times> ndarray \<times> ndarray) \<Rightarrow> nat \<Rightarrow> nat \<Rightarrow> nat \<Rightarrow> nat \<Rightarrow>
   vec \<Rightarrow> vec \<Rightarrow> vec \<Rightarrow> ndarray \<Rightarrow> ndarray \<times> ndarray \<times> ndarray" where
  "solve_bc_jac bcjac nstates nquads ndyn nnondyn ya yb params const =
     (if 0 < nquads then
        bcjac [take nstates ya, slice nstates (nstates + nquads) ya,
               take nstates yb, slice nstates (nstates + nquads) yb,
               take ndyn params, slice ndyn (ndyn + nnondyn) params] const
      else
        bcjac [ya, yb, take ndyn params, slice ndyn (ndyn + nnondyn) params] const)"


section \<open>Objects, the store and \<^verbatim>\<open>copy.deepcopy\<close>\<close>

text \<open>
  \<^verbatim>\<open>solve\<close> copies its guess and then writes attributes and a dictionary entry, so
  the guess lives in an explicit store. The store is split by the type of object:
  arrays, dictionaries and trajectory objects each have their own address space, an
  address being an index. Allocation appends. A Python reference always points to a
  live object, so an address outside its store has no counterpart in the program.
\<close>

type_synonym addr = nat

datatype auxval = AuxFloat real | AuxInt int

type_synonym dict = "string \<rightharpoonup> auxval"

text \<open>
  Modelled from the spec: the class \<^verbatim>\<open>Trajectory\<close> of
  \<^verbatim>\<open>beluga.data_classes.trajectory\<close> is not part of the sources at hand. Following the
  data model of the specification, a solution or guess owns the mesh \<^verbatim>\<open>t\<close>, the state
  matrix \<^verbatim>\<open>y\<close>, the quadrature matrix \<^verbatim>\<open>q\<close>, the parameter vectors \<^verbatim>\<open>p\<close> and
  \<^verbatim>\<open>nu\<close>, the constants \<^verbatim>\<open>k\<close>, the costate matrix \<^verbatim>\<open>lam\<close>, the mapping
  \<^verbatim>\<open>aux\<close> and the boolean \<^verbatim>\<open>converged\<close>. Each array attribute is a reference to an
  array object, \<^verbatim>\<open>aux\<close> a reference to a dictionary.
\<close>

record trajectory =
  traj_t :: addr
  traj_y :: addr
  traj_q :: addr
  traj_p :: addr
  traj_nu :: addr
  traj_k :: addr
  traj_lam :: addr
  traj_aux :: addr
  traj_converged :: bool

record heap =
  arrays :: "ndarray list"
  dicts :: "dict list"
  trajs :: "trajectory list"

text \<open>
  \<^verbatim>\<open>copy.deepcopy\<close> keeps a memo from objects already copied to their copies, so that
  two attributes referring to one array refer to one array in the copy as well. The
  array attributes are copied in turn; each copy is a new object.
\<close>

fun deepcopy_arrays ::
  "ndarray list \<Rightarrow> (addr \<times> addr) list \<Rightarrow> addr list \<Rightarrow> ndarray list \<times> addr list" where
  "deepcopy_arrays store memo [] = (store, [])"
| "deepcopy_arrays store memo (a # as) =
     (case map_of memo a of
        Some a' \<Rightarrow>
          (case deepcopy_arrays store memo as of (store', bs) \<Rightarrow> (store', a' # bs))
      | None \<Rightarrow>
          (case deepcopy_arrays (store @ [store ! a]) ((a, length store) # memo) as of
             (store', bs) \<Rightarrow> (store', length store # bs)))"

definition deepcopy :: "heap \<Rightarrow> addr \<Rightarrow> heap \<times> addr" where
  "deepcopy h r =
     (let g = trajs h ! r in
      case deepcopy_arrays (arrays h) []
             [traj_t g, traj_y g, traj_q g, traj_p g, traj_nu g, traj_k g, traj_lam g] of
        (store', bs) \<Rightarrow>
          (\<lparr>arrays = store',
            dicts = dicts h @ [dicts h ! traj_aux g],
            trajs = trajs h @
              [\<lparr>traj_t = bs ! 0, traj_y = bs ! 1, traj_q = bs ! 2, traj_p = bs ! 3,
                traj_nu = bs ! 4, traj_k = bs ! 5, traj_lam = bs ! 6,
                traj_aux = length (dicts h), traj_converged = traj_converged g\<rparr>]\<rparr>,
           length (trajs h)))"

section \<open>The external engine and \<^verbatim>\<open>solve\<close>\<close>

text \<open>
  \<^verbatim>\<open>scipy.integrate.solve_bvp\<close> is not part of the repository; it is a parameter of
  the model. It receives the two closures, the mesh, the initial guess matrix, the
  initial parameter vector, \<^verbatim>\<open>max_nodes\<close> and the two optional Jacobian closures. It
  calls the closures with \<^verbatim>\<open>(x, y, p)\<close> and \<^verbatim>\<open>(ya, yb, p)\<close>, leaving \<^verbatim>\<open>const\<close> at
  its default. It either raises or returns a result with the refined mesh \<^verbatim>\<open>x\<close>, the
  state matrix \<^verbatim>\<open>y\<close> (one column per node), the parameter vector \<^verbatim>\<open>p\<close> or
  \<^verbatim>\<open>None\<close>, the success flag, the message, the residuals and the iteration count.
  Like the user-supplied functions it is taken to be pure: it works on the values it is
  given and writes to no object of the store, and the arrays of its result are new.
\<close>

record opt =
  opt_x :: vec
  opt_y :: mat
  opt_p :: "vec option"
  opt_success :: bool
  opt_message :: string
  opt_rms_residuals :: vec
  opt_niter :: int

type_synonym fun_closure = "vec \<Rightarrow> mat \<Rightarrow> vec \<Rightarrow> error + mat"
type_synonym bc_closure = "vec \<Rightarrow> vec \<Rightarrow> vec \<Rightarrow> vec"
type_synonym fun_jac_closure = "vec \<Rightarrow> mat \<Rightarrow> vec \<Rightarrow> error + jac_out"
type_synonym bc_jac_closure = "vec \<Rightarrow> vec \<Rightarrow> vec \<Rightarrow> ndarray \<times> ndarray \<times> ndarray"

type_synonym engine =
  "fun_closure \<Rightarrow> bc_closure \<Rightarrow> ndarray \<Rightarrow> ndarray \<Rightarrow> ndarray \<Rightarrow> int \<Rightarrow>
   fun_jac_closure option \<Rightarrow> bc_jac_closure option \<Rightarrow> error + opt"

text \<open>
  \<^verbatim>\<open>BVPResult(sol=..., success=..., message=..., rms_residuals=..., niter=...)\<close>;
  \<open>sol\<close> is a reference to the solution object.
\<close>

record bvpresult =
  sol :: addr
  success :: bool
  message :: string
  rms_residuals :: vec
  niter :: int

text \<open>
  Lines 118 to 137, the result composer. \<^verbatim>\<open>copy.copy\<close> allocates a new trajectory
  object with the attributes of the working copy; the six array attributes are then
  rebound to new arrays (the engine's mesh, two slices of the engine's transposed state
  matrix, the zero costates and the two parts of the engine's parameter vector), so
  \<^verbatim>\<open>k\<close> and \<^verbatim>\<open>aux\<close> stay shared with the working copy. The two stores into
  \<^verbatim>\<open>sol.aux\<close> update that shared dictionary in place.
\<close>

definition compose ::
  "heap \<Rightarrow> addr \<Rightarrow> nat \<Rightarrow> nat \<Rightarrow> nat \<Rightarrow> nat \<Rightarrow> opt \<Rightarrow> real \<Rightarrow> heap \<times> bvpresult" where
  "compose h solinit nstates nquads ndyn nnondyn res comp_time =
     (let g = trajs h ! solinit;
          a = length (arrays h);
          new_y = cols_slice 0 nstates (transpose_mat (opt_y res));
          new_q = cols_slice nstates (nstates + nquads) (transpose_mat (opt_y res));
          new_p = (case opt_p res of Some pv \<Rightarrow> take ndyn pv | None \<Rightarrow> []);
          new_nu = (case opt_p res of Some pv \<Rightarrow> slice ndyn (ndyn + nnondyn) pv | None \<Rightarrow> [])
      in (\<lparr>arrays = arrays h @
             [Arr1 (opt_x res), Arr2 new_y, Arr2 new_q, Arr2 (zeros_like new_y),
              Arr1 new_p, Arr1 new_nu],
           dicts = (dicts h)
             [traj_aux g :=
                ((dicts h ! traj_aux g)(''comp_time'' \<mapsto> AuxFloat comp_time))
                  (''niter'' \<mapsto> AuxInt (opt_niter res))],
           trajs = trajs h @
             [g\<lparr>traj_t := a, traj_y := a + 1, traj_q := a + 2, traj_lam := a + 3,
                traj_p := a + 4, traj_nu := a + 5, traj_converged := opt_success res\<rparr>]\<rparr>,
          \<lparr>sol = length (trajs h), success = opt_success res, message = opt_message res,
           rms_residuals = opt_rms_residuals res, niter = opt_niter res\<rparr>))"

text \<open>
  The call of lines 107 to 109 and 113 to 115: the engine applied to the closures of
  lines 50 to 103, which capture \<^verbatim>\<open>self\<close>, the four counts and the constants
  \<open>k\<close> of the working copy, to the mesh \<open>t\<close>, the augmented guess \<open>y0\<close>, the
  augmented parameter vector \<open>p0\<close> and \<^verbatim>\<open>self.max_nodes\<close>.
\<close>

definition engine_call ::
  "engine \<Rightarrow> solver \<Rightarrow> ndarray \<Rightarrow> nat \<Rightarrow> nat \<Rightarrow> nat \<Rightarrow> nat \<Rightarrow>
   ndarray \<Rightarrow> ndarray \<Rightarrow> ndarray \<Rightarrow> error + opt" where
  "engine_call solve_bvp self k nstates nquads ndyn nnondyn t y0 p0 =
     solve_bvp
       (\<lambda>t y params. solve_fun self nstates nquads ndyn t y params k)
       (\<lambda>ya yb params. solve_bc self nstates nquads ndyn nnondyn ya yb params k)
       t y0 p0 (max_nodes self)
       (map_option
          (\<lambda>jac t y params. solve_fun_jac jac nstates ndyn nnondyn t y params k)
          (derivative_function_jac self))
       (map_option
          (\<lambda>bcjac ya yb params. solve_bc_jac bcjac nstates nquads ndyn nnondyn ya yb params k)
          (boundarycondition_function_jac self))"

text \<open>
  Lines 45 to 137 of \<^verbatim>\<open>solve\<close>, once \<^verbatim>\<open>nstates\<close> and \<^verbatim>\<open>nquads\<close> are known: the
  remaining two counts, the engine call between two clock readings, and the composer.
  The arguments of the engine call are evaluated from left to right, so the two
  \<^verbatim>\<open>np.hstack\<close> calls come before the engine runs.
\<close>

definition solve_rest ::
  "engine \<Rightarrow> real \<Rightarrow> real \<Rightarrow> solver \<Rightarrow> heap \<Rightarrow> addr \<Rightarrow> nat \<Rightarrow> nat \<Rightarrow>
   (solver \<times> heap) \<times> (error + bvpresult)" where
  "solve_rest solve_bvp time0 time1 self h solinit nstates nquads =
     (let g = trajs h ! solinit;
          y = arrays h ! traj_y g;
          q = arrays h ! traj_q g;
          p = arrays h ! traj_p g;
          nu = arrays h ! traj_nu g;
          k = arrays h ! traj_k g;
          ndyn = np_size p;
          nnondyn = np_size nu
      in case (if 0 < nquads then hstack y q else Inr y) of
           Inl e \<Rightarrow> ((self, h), Inl e)
         | Inr yq \<Rightarrow>
            (case hstack p nu of
               Inl e \<Rightarrow> ((self, h), Inl e)
             | Inr pnu \<Rightarrow>
                (case engine_call solve_bvp self k nstates nquads ndyn nnondyn
                        (arrays h ! traj_t g) (np_T yq) pnu of
                   Inl e \<Rightarrow> ((self, h), Inl e)
                 | Inr res \<Rightarrow>
                    (case compose h solinit nstates nquads ndyn nnondyn res (time1 - time0) of
                       (h', out) \<Rightarrow> ((self, h'), Inr out)))))"

text \<open>
  \<^verbatim>\<open>solve(self, solinit)\<close>, lines 29 to 43 followed by the rest. The result is the
  solver object and the store after the call, and the exception raised or the value
  returned. \<open>time0\<close> and \<open>time1\<close> are the two readings of \<^verbatim>\<open>time.time()\<close>.
\<close>

definition solve ::
  "engine \<Rightarrow> real \<Rightarrow> real \<Rightarrow> solver \<Rightarrow> heap \<Rightarrow> addr \<Rightarrow>
   (solver \<times> heap) \<times> (error + bvpresult)" where
  "solve solve_bvp time0 time1 self h0 solinit0 =
     (case deepcopy h0 solinit0 of
        (h, solinit) \<Rightarrow>
          (case shape1 (arrays h ! traj_y (trajs h ! solinit)) of
             Inl e \<Rightarrow> ((self, h), Inl e)
           | Inr nstates \<Rightarrow>
              (if 0 < np_size (arrays h ! traj_q (trajs h ! solinit)) then
                 (case shape1 (arrays h ! traj_q (trajs h ! solinit)) of
                    Inl e \<Rightarrow> ((self, h), Inl e)
                  | Inr nquads \<Rightarrow>
                     solve_rest solve_bvp time0 time1 self h solinit nstates nquads)
               else
                 solve_rest solve_bvp time0 time1
                   (self\<lparr>quadrature_function := return_nil\<rparr>) h solinit nstates 0)))"


section \<open>Predicates and sample data used in the statements\<close>

text \<open>The nested lists of a three-axis array agree with its declared shape.\<close>

definition wf_arr3 :: "arr3 \<Rightarrow> bool" where
  "wf_arr3 a =
     (length (cells a) = dim0 a \<and>
      list_all (\<lambda>row. length row = dim1 a \<and> list_all (\<lambda>cell. length cell = dim2 a) row)
        (cells a))"

text \<open>Every entry in a column from \<open>ndyn\<close> on is zero, at every row and node.\<close>

definition zero_padded :: "nat \<Rightarrow> arr3 \<Rightarrow> bool" where
  "zero_padded ndyn a =
     list_all (\<lambda>row. list_all (\<lambda>cell. list_all (\<lambda>x. x = 0) cell) (drop ndyn row)) (cells a)"

text \<open>
  The references of the guess at \<open>r\<close> point into the store, and the values a caller
  sees through them: the seven arrays in the order \<^verbatim>\<open>t, y, q, p, nu, k, lam\<close>, the
  dictionary \<^verbatim>\<open>aux\<close> and the flag \<^verbatim>\<open>converged\<close>.
\<close>

definition array_refs :: "trajectory \<Rightarrow> addr list" where
  "array_refs g = [traj_t g, traj_y g, traj_q g, traj_p g, traj_nu g, traj_k g, traj_lam g]"

definition valid_guess :: "heap \<Rightarrow> addr \<Rightarrow> bool" where
  "valid_guess h r =
     (r < length (trajs h) \<and>
      list_all (\<lambda>a. a < length (arrays h)) (array_refs (trajs h ! r)) \<and>
      traj_aux (trajs h ! r) < length (dicts h))"

definition guess_fields :: "heap \<Rightarrow> addr \<Rightarrow> ndarray list \<times> dict \<times> bool" where
  "guess_fields h r =
     (map (\<lambda>a. arrays h ! a) (array_refs (trajs h ! r)),
      dicts h ! traj_aux (trajs h ! r),
      traj_converged (trajs h ! r))"

text \<open>Every object of the store \<open>h\<close> is still there, unchanged, in \<open>h'\<close>.\<close>

definition heap_extends :: "heap \<Rightarrow> heap \<Rightarrow> bool" where
  "heap_extends h h' =
     (take (length (arrays h)) (arrays h') = arrays h \<and> length (arrays h) \<le> length (arrays h') \<and>
      take (length (dicts h)) (dicts h') = dicts h \<and> length (dicts h) \<le> length (dicts h') \<and>
      take (length (trajs h)) (trajs h') = trajs h \<and> length (trajs h) \<le> length (trajs h'))"

text \<open>
  The trajectory object at \<open>s\<close> of \<open>h'\<close> and every object it refers to were
  allocated after \<open>h\<close>.
\<close>

definition fresh_solution :: "heap \<Rightarrow> heap \<Rightarrow> addr \<Rightarrow> bool" where
  "fresh_solution h h' s =
     (length (trajs h) \<le> s \<and> s < length (trajs h') \<and>
      list_all (\<lambda>a. length (arrays h) \<le> a \<and> a < length (arrays h')) (array_refs (trajs h' ! s)) \<and>
      length (dicts h) \<le> traj_aux (trajs h' ! s) \<and> traj_aux (trajs h' ! s) < length (dicts h'))"

text \<open>
  A guess on which the lines before the engine call raise nothing: \<^verbatim>\<open>y\<close> has two
  axes; \<^verbatim>\<open>q\<close> is empty, or has two axes and stacks beside \<^verbatim>\<open>y\<close>; \<^verbatim>\<open>p\<close> and
  \<^verbatim>\<open>nu\<close> stack.
\<close>

fun returns :: "error + 'a \<Rightarrow> bool" where
  "returns (Inr x) = True"
| "returns (Inl e) = False"

definition well_shaped :: "heap \<Rightarrow> addr \<Rightarrow> bool" where
  "well_shaped h r =
     (let g = trajs h ! r;
          y = arrays h ! traj_y g;
          q = arrays h ! traj_q g
      in returns (shape1 y) \<and>
         (0 < np_size q \<longrightarrow> returns (shape1 q) \<and> returns (hstack y q)) \<and>
         returns (hstack (arrays h ! traj_p g) (arrays h ! traj_nu g)))"

text \<open>
  Sample analytic Jacobians. \<open>sample_jac n\<close> is well shaped for a problem with \<open>n\<close>
  states: an \<open>n\<close> by \<open>n\<close> state block and one row of the dynamic parameters per
  state as the parameter block. \<open>echo_jac\<close> returns the state vector it receives as its
  state block (a single row, which the assignment broadcasts), so that the argument it
  was called with can be read off the result. \<open>collapsed_jac\<close> returns its parameter
  block collapsed to one axis.
\<close>

definition sample_jac :: "nat \<Rightarrow> vec \<Rightarrow> vec \<Rightarrow> ndarray \<Rightarrow> ndarray \<times> ndarray" where
  "sample_jac n s p c =
     (Arr2 (Mat n (replicate n (replicate n 2))), Arr2 (Mat (length p) (replicate n p)))"

definition echo_jac :: "vec \<Rightarrow> vec \<Rightarrow> ndarray \<Rightarrow> ndarray \<times> ndarray" where
  "echo_jac s p c = (Arr1 s, Arr2 (Mat (length p) [p]))"

definition collapsed_jac :: "vec \<Rightarrow> vec \<Rightarrow> ndarray \<Rightarrow> ndarray \<times> ndarray" where
  "collapsed_jac s p c = (Arr0 1, Arr1 s)"

text \<open>
  A sample solver object: the dynamics \<^verbatim>\<open>y' = y\<close>, the integrand \<^verbatim>\<open>1\<close>, no
  analytic Jacobians, and a node budget of three.
\<close>

definition sample_solver :: solver where
  "sample_solver =
     \<lparr>derivative_function = (\<lambda>s p c. s),
      quadrature_function = (\<lambda>s p c. [1]),
      boundarycondition_function = (\<lambda>args c. []),
      derivative_function_jac = None,
      boundarycondition_function_jac = None,
      max_nodes = 3\<rparr>"

text \<open>
  A store with two guesses on the mesh \<^verbatim>\<open>[0, 1]\<close> with one state: guess 0 has no
  quadrature (its \<^verbatim>\<open>q\<close>, \<^verbatim>\<open>p\<close>, \<^verbatim>\<open>nu\<close> and \<^verbatim>\<open>k\<close> are one empty array), guess 1
  has one quadrature variable.
\<close>

definition sample_heap :: heap where
  "sample_heap =
     \<lparr>arrays = [Arr1 [0, 1], Arr2 (Mat 1 [[5], [6]]), Arr1 [], Arr2 (Mat 1 [[0], [0]]),
                Arr2 (Mat 1 [[7], [8]])],
      dicts = [Map.empty],
      trajs =
        [\<lparr>traj_t = 0, traj_y = 1, traj_q = 2, traj_p = 2, traj_nu = 2, traj_k = 2,
          traj_lam = 3, traj_aux = 0, traj_converged = False\<rparr>,
         \<lparr>traj_t = 0, traj_y = 1, traj_q = 4, traj_p = 2, traj_nu = 2, traj_k = 2,
          traj_lam = 3, traj_aux = 0, traj_converged = False\<rparr>]\<rparr>"

text \<open>
  Two stand-ins for the engine. \<open>failing_engine\<close> gives up at once, as the engine does
  when the node budget is exhausted. \<open>probe_engine\<close> evaluates the dynamics closure once
  on the initial mesh and guess and reports the outcome as its state matrix.
\<close>

definition failed_outcome :: opt where
  "failed_outcome =
     \<lparr>opt_x = [0, 1], opt_y = Mat 2 [[5, 6]], opt_p = None, opt_success = False,
      opt_message = ''The maximum number of mesh nodes is exceeded.'',
      opt_rms_residuals = [1], opt_niter = 1\<rparr>"

definition failing_engine :: engine where
  "failing_engine f bc t y p n fj bj = Inr failed_outcome"

definition probe_engine :: engine where
  "probe_engine f bc t y p n fj bj =
     (case (t, y, p) of
        (Arr1 tv, Arr2 m, Arr1 pv) \<Rightarrow>
          (case f tv m pv of
             Inl e \<Rightarrow> Inl e
           | Inr d \<Rightarrow>
              Inr \<lparr>opt_x = tv, opt_y = d, opt_p = (if pv = [] then None else Some pv),
                   opt_success = True, opt_message = ''probe'',
                   opt_rms_residuals = [], opt_niter = 1\<rparr>)
      | _ \<Rightarrow> Inl ValueError)"

text \<open>The quadrature matrix of the solution that a call returned.\<close>

definition solution_q :: "(solver \<times> heap) \<times> (error + bvpresult) \<Rightarrow> ndarray option" where
  "solution_q r =
     (case snd r of
        Inl e \<Rightarrow> None
      | Inr out \<Rightarrow> Some (arrays (snd (fst r)) ! traj_q (trajs (snd (fst r)) ! sol out)))"


section \<open>Facts about the array operations\<close>

lemma vstack_Inr:
  "vstack vs = Inr m \<Longrightarrow> rows m = vs \<and> vs \<noteq> [] \<and> wf_mat m \<and> ncols m = length (hd vs)"
  by (cases vs) (auto simp: wf_mat_def split: if_splits)

lemma length_rows_transpose: "length (rows (transpose_mat y)) = ncols y"
  by (simp add: transpose_mat_def)

lemma ncols_transpose: "ncols (transpose_mat y) = length (rows y)"
  by (simp add: transpose_mat_def)

lemma rows_transpose_nth: "i < ncols y \<Longrightarrow> rows (transpose_mat y) ! i = column y i"
  by (simp add: transpose_mat_def column_def)

lemma column_transpose:
  assumes "wf_mat m" and "i < length (rows m)"
  shows "column (transpose_mat m) i = rows m ! i"
proof -
  from assms have len: "length (rows m ! i) = ncols m"
    by (simp add: wf_mat_def list_all_length)
  have "column (transpose_mat m) i = map (\<lambda>j. rows m ! i ! j) [0..<ncols m]"
    using assms(2) by (simp add: column_def transpose_mat_def)
  also have "\<dots> = rows m ! i"
    using len by (metis map_nth)
  finally show ?thesis .
qed

lemma hstack_mat_Inr:
  "hstack_mat m n = Inr r \<Longrightarrow>
     length (rows m) = length (rows n) \<and> ncols r = ncols m + ncols n \<and>
     rows r = map2 (@) (rows m) (rows n)"
  by (auto simp: hstack_mat_def split: if_splits)

lemma wf_hstack_mat:
  "wf_mat m \<Longrightarrow> wf_mat n \<Longrightarrow> hstack_mat m n = Inr r \<Longrightarrow> wf_mat r"
  by (auto simp: hstack_mat_def wf_mat_def list_all_length split: if_splits)

lemma wf_zeros3: "wf_arr3 (zeros3 r c n)"
  by (simp add: wf_arr3_def zeros3_def list_all_length)

lemma zero_padded_zeros3: "zero_padded ndyn (zeros3 r c n)"
  by (simp add: zero_padded_def zeros3_def list_all_length)

lemma broadcast_mat_shape:
  "broadcast_mat r c m = Inr blk \<Longrightarrow> length blk = r \<and> list_all (\<lambda>row. length row = c) blk"
  by (auto simp: broadcast_mat_def list_all_length split: if_splits)

lemma broadcast_to_shape:
  "broadcast_to r c v = Inr blk \<Longrightarrow> length blk = r \<and> list_all (\<lambda>row. length row = c) blk"
  by (cases v) (auto simp: list_all_length dest: broadcast_mat_shape)

lemma setitem_node_dims:
  "setitem_node a ii v = Inr a' \<Longrightarrow> dim0 a' = dim0 a \<and> dim1 a' = dim1 a \<and> dim2 a' = dim2 a"
  by (auto simp: setitem_node_def put_node_def split: if_splits sum.splits)

lemma setitem_node_wf:
  assumes "setitem_node a ii v = Inr a'" and "wf_arr3 a"
  shows "wf_arr3 a'"
proof -
  from assms(1) obtain blk where b: "broadcast_to (dim0 a) (dim1 a) v = Inr blk"
    and a': "a' = put_node a ii blk"
    by (auto simp: setitem_node_def split: if_splits sum.splits)
  from broadcast_to_shape[OF b] have lb: "length blk = dim0 a"
    and rb: "list_all (\<lambda>row. length row = dim1 a) blk" by auto
  show ?thesis using assms(2) lb rb
    by (auto simp: a' put_node_def wf_arr3_def list_all_length)
qed

lemma padded_dp_Inr:
  assumes "padded_dp nstates nnondyn raw = Inr blk"
  shows "\<exists>m. promote nstates raw = Arr2 m \<and> length (rows m) = nstates \<and>
             blk = Arr2 (Mat (ncols m + nnondyn) (map (\<lambda>r. r @ replicate nnondyn 0) (rows m)))"
proof (cases "promote nstates raw")
  case (Arr2 m)
  with assms have len: "length (rows m) = nstates"
    and blk: "blk = Arr2 (Mat (ncols m + nnondyn) (map2 (@) (rows m) (replicate nstates (replicate nnondyn 0))))"
    by (auto simp: padded_dp_def hstack_def hstack_mat_def zeros_def split: if_splits)
  have "map2 (@) (rows m) (replicate nstates (replicate nnondyn 0)) =
        map (\<lambda>r. r @ replicate nnondyn (0::real)) (rows m)"
    using len by (auto simp: list_eq_iff_nth_eq)
  with Arr2 len blk show ?thesis by simp
qed (use assms in \<open>auto simp: padded_dp_def hstack_def zeros_def\<close>)

lemma wf_promote: "wf_ndarray raw \<Longrightarrow> wf_ndarray (promote nstates raw)"
  by (cases raw) (auto simp: promote_def transpose_mat_def wf_mat_def list_all_length)


lemma broadcast_padded_zero:
  assumes blk: "broadcast_mat r c (Mat (nc + nnondyn) (map (\<lambda>row. row @ replicate nnondyn 0) rs)) = Inr blk"
    and wf: "list_all (\<lambda>row. length row = nc) rs"
    and c: "c = ndyn + nnondyn" and i: "i < r" and j: "ndyn \<le> j" "j < c"
  shows "blk ! i ! j = 0"
proof -
  let ?rs = "map (\<lambda>row. row @ replicate nnondyn (0::real)) rs"
  let ?i = "if length rs = 1 then 0 else i"
  let ?j = "if nc + nnondyn = 1 then 0 else j"
  from blk have shape: "length rs = r \<or> length rs = 1" "nc + nnondyn = c \<or> nc + nnondyn = 1"
    by (auto simp: broadcast_mat_def split: if_splits)
  from blk i j have "blk ! i ! j = ?rs ! ?i ! ?j"
    by (auto simp: broadcast_mat_def split: if_splits)
  moreover have i': "?i < length rs" using shape(1) i by auto
  moreover have len: "length (rs ! ?i) = nc" using wf i' by (simp add: list_all_length)
  moreover have jj: "nc \<le> ?j" "?j - nc < nnondyn" using shape(2) c j by auto
  ultimately have "blk ! i ! j = replicate nnondyn (0::real) ! (?j - nc)"
    by (simp add: nth_append)
  also have "\<dots> = 0" using jj(2) by (rule nth_replicate)
  finally show ?thesis .
qed

lemma setitem_padded_zero:
  assumes p: "padded_dp nstates nnondyn raw = Inr v" and wfr: "wf_ndarray raw"
    and s: "setitem_node a ii v = Inr a'"
    and wfa: "wf_arr3 a" and c: "dim1 a = ndyn + nnondyn" and z: "zero_padded ndyn a"
  shows "zero_padded ndyn a'"
proof -
  from padded_dp_Inr[OF p] obtain m where m: "promote nstates raw = Arr2 m"
    and v: "v = Arr2 (Mat (ncols m + nnondyn) (map (\<lambda>r. r @ replicate nnondyn 0) (rows m)))"
    by blast
  from wf_promote[OF wfr, of nstates] m have wfm: "list_all (\<lambda>row. length row = ncols m) (rows m)"
    by (simp add: wf_mat_def)
  from s obtain blk where b: "broadcast_to (dim0 a) (dim1 a) v = Inr blk"
    and a': "a' = put_node a ii blk"
    by (auto simp: setitem_node_def split: if_splits sum.splits)
  from broadcast_to_shape[OF b] have lb: "length blk = dim0 a"
    and rb: "list_all (\<lambda>row. length row = dim1 a) blk" by auto
  from b v have bm: "broadcast_mat (dim0 a) (dim1 a)
      (Mat (ncols m + nnondyn) (map (\<lambda>r. r @ replicate nnondyn 0) (rows m))) = Inr blk" by simp
  have zero: "blk ! i ! j = 0" if "i < dim0 a" "ndyn \<le> j" "j < dim1 a" for i j
    using broadcast_padded_zero[OF bm wfm c that] .
  show ?thesis
    unfolding zero_padded_def a' put_node_def list_all_length
  proof (intro allI impI)
    fix i j n
    assume i: "i < length (cells (Arr3 (dim0 a) (dim1 a) (dim2 a)
                 (map2 (\<lambda>row brow. map2 (\<lambda>cell x. cell[ii := x]) row brow) (cells a) blk)))"
    let ?row = "cells (Arr3 (dim0 a) (dim1 a) (dim2 a)
                 (map2 (\<lambda>row brow. map2 (\<lambda>cell x. cell[ii := x]) row brow) (cells a) blk)) ! i"
    assume j: "j < length (drop ndyn ?row)"
    assume n: "n < length (drop ndyn ?row ! j)"
    from i wfa lb have i0: "i < dim0 a" "i < length (cells a)" "i < length blk"
      by (auto simp: wf_arr3_def)
    have lrow: "length (cells a ! i) = dim1 a" "length (blk ! i) = dim1 a"
      using wfa rb i0 by (auto simp: wf_arr3_def list_all_length)
    have row: "?row = map2 (\<lambda>cell x. cell[ii := x]) (cells a ! i) (blk ! i)"
      using i0 by simp
    have "length ?row = dim1 a" unfolding row using lrow by simp
    with j have j0: "ndyn + j < dim1 a" by simp
    have cell: "drop ndyn ?row ! j = (cells a ! i ! (ndyn + j))[ii := blk ! i ! (ndyn + j)]"
      unfolding row using j0 lrow by simp
    have old: "list_all (\<lambda>x. x = 0) (cells a ! i ! (ndyn + j))"
      using z i0 j0 lrow by (simp add: zero_padded_def list_all_length)
    have new: "blk ! i ! (ndyn + j) = 0" using zero[OF i0(1) _ j0] by simp
    show "drop ndyn ?row ! j ! n = 0"
      using n old new unfolding cell by (cases "n = ii") (simp_all add: list_all_length)
  qed
qed

lemma fun_jac_loop_inv:
  assumes "fun_jac_loop jac nstates ndyn nnondyn params const ii ys dy dp = Inr (dy', dp')"
    and "\<forall>s p c. wf_ndarray (snd (jac s p c))"
    and "wf_arr3 dy" and "wf_arr3 dp" and "dim1 dp = ndyn + nnondyn" and "zero_padded ndyn dp"
  shows "wf_arr3 dy' \<and> wf_arr3 dp' \<and> zero_padded ndyn dp' \<and>
         dim0 dy' = dim0 dy \<and> dim1 dy' = dim1 dy \<and> dim2 dy' = dim2 dy \<and>
         dim0 dp' = dim0 dp \<and> dim1 dp' = dim1 dp \<and> dim2 dp' = dim2 dp"
  using assms
proof (induction ys arbitrary: ii dy dp)
  case Nil
  then show ?case by simp
next
  case (Cons yi ys)
  from Cons.prems(1) obtain dy1 blk dp1 where
    s1: "setitem_node dy ii (fst (jac yi (take ndyn params) const)) = Inr dy1"
    and p: "padded_dp nstates nnondyn (snd (jac yi (take ndyn params) const)) = Inr blk"
    and s2: "setitem_node dp ii blk = Inr dp1"
    and rest: "fun_jac_loop jac nstates ndyn nnondyn params const (Suc ii) ys dy1 dp1 = Inr (dy', dp')"
    by (auto split: sum.splits)
  have wf1: "wf_arr3 dy1" using setitem_node_wf[OF s1 Cons.prems(3)] .
  have wf2: "wf_arr3 dp1" using setitem_node_wf[OF s2 Cons.prems(4)] .
  have d1: "dim1 dp1 = ndyn + nnondyn" using setitem_node_dims[OF s2] Cons.prems(5) by simp
  have z: "zero_padded ndyn dp1"
    using setitem_padded_zero[OF p _ s2 Cons.prems(4,5,6)] Cons.prems(2) by simp
  from Cons.IH[OF rest Cons.prems(2) wf1 wf2 d1 z] setitem_node_dims[OF s1] setitem_node_dims[OF s2]
  show ?case by simp
qed

lemma vstack_returns:
  "vs \<noteq> [] \<Longrightarrow> list_all (\<lambda>w. length w = m) vs \<Longrightarrow> returns (vstack vs)"
  by (cases vs) (auto simp: list_all_iff)

lemma solve_fun_returns:
  assumes "0 < ncols y"
    and "\<forall>i<ncols y. length (derivative_function self (take nstates (column y i)) (take ndyn params) const) = m"
    and "\<forall>i<ncols y. length (quadrature_function self (take nstates (column y i)) (take ndyn params) const) = k"
  shows "returns (solve_fun self nstates nquads ndyn t y params const)"
proof -
  let ?d = "\<lambda>yi. derivative_function self (take nstates yi) (take ndyn params) const"
  let ?q = "\<lambda>yi. quadrature_function self (take nstates yi) (take ndyn params) const"
  let ?ys = "rows (transpose_mat y)"
  have ne: "?ys \<noteq> []" using assms(1) by (simp add: transpose_mat_def)
  have "list_all (\<lambda>w. length w = m) (map ?d ?ys)"
    using assms(2) by (simp add: list_all_length length_rows_transpose rows_transpose_nth)
  with ne obtain o1 where o1: "vstack (map ?d ?ys) = Inr o1"
    using vstack_returns[of "map ?d ?ys" m] by (cases "vstack (map ?d ?ys)") auto
  have "list_all (\<lambda>w. length w = k) (map ?q ?ys)"
    using assms(3) by (simp add: list_all_length length_rows_transpose rows_transpose_nth)
  with ne obtain o2 where o2: "vstack (map ?q ?ys) = Inr o2"
    using vstack_returns[of "map ?q ?ys" k] by (cases "vstack (map ?q ?ys)") auto
  have "length (rows o1) = length (rows o2)"
    using vstack_Inr[OF o1] vstack_Inr[OF o2] by simp
  then show ?thesis using o1 o2 by (simp add: solve_fun_def hstack_mat_def)
qed

lemma fun_jac_loop_dims:
  "fun_jac_loop jac nstates ndyn nnondyn params const ii ys dy dp = Inr (dy', dp') \<Longrightarrow>
     dim0 dy' = dim0 dy \<and> dim1 dy' = dim1 dy \<and> dim2 dy' = dim2 dy \<and>
     dim0 dp' = dim0 dp \<and> dim1 dp' = dim1 dp \<and> dim2 dp' = dim2 dp"
proof (induction ys arbitrary: ii dy dp)
  case Nil
  then show ?case by simp
next
  case (Cons yi ys)
  from Cons.prems obtain dy1 blk dp1 where
    s1: "setitem_node dy ii (fst (jac yi (take ndyn params) const)) = Inr dy1"
    and s2: "setitem_node dp ii blk = Inr dp1"
    and rest: "fun_jac_loop jac nstates ndyn nnondyn params const (Suc ii) ys dy1 dp1 = Inr (dy', dp')"
    by (auto split: sum.splits)
  from Cons.IH[OF rest] setitem_node_dims[OF s1] setitem_node_dims[OF s2] show ?case by simp
qed

lemma solve_fun_jac_Inr:
  assumes "solve_fun_jac jac nstates ndyn nnondyn t y params const = Inr out"
  obtains dy dp where
    "fun_jac_loop jac nstates ndyn nnondyn params const 0 (rows (transpose_mat y))
        (zeros3 (length (rows y)) (length (rows y)) (length t))
        (zeros3 (length (rows y)) (ndyn + nnondyn) (length t)) = Inr (dy, dp)"
    "out = (if ndyn + nnondyn = 0 then StateOnly dy else StateAndParams dy dp)"
    "0 < ncols y"
proof -
  from assms obtain y0 ys where r: "rows (transpose_mat y) = y0 # ys"
    by (auto simp: solve_fun_jac_def split: list.splits)
  have "length (rows (transpose_mat y)) = ncols y" by (rule length_rows_transpose)
  with r have nc: "0 < ncols y" by simp
  have "y0 = rows (transpose_mat y) ! 0" by (simp add: r)
  then have l: "length y0 = length (rows y)" using nc by (simp add: transpose_mat_def)
  from assms r l that nc show thesis
    by (auto simp: solve_fun_jac_def split: sum.splits prod.splits if_splits)
qed

lemma padded_block_not_placed:
  assumes "0 < nquads" and "nstates \<noteq> 1" and "dim0 a = nstates + nquads" and "ii < dim2 a"
    and "padded_dp nstates nnondyn raw = Inr blk"
  shows "setitem_node a ii blk = Inl ValueError"
proof -
  from padded_dp_Inr[OF assms(5)] obtain m where
    "length (rows m) = nstates"
    "blk = Arr2 (Mat (ncols m + nnondyn) (map (\<lambda>r. r @ replicate nnondyn 0) (rows m)))"
    by blast
  with assms(1-4) show ?thesis
    by (simp add: setitem_node_def broadcast_mat_def)
qed

lemma column_of_vector: "transpose_mat (Mat (length v) [v]) = Mat 1 (map (\<lambda>x. [x]) v)"
proof -
  have "map (\<lambda>j. [v ! j]) [0..<length v] = map (\<lambda>x. [x]) (map ((!) v) [0..<length v])"
    by simp
  then show ?thesis by (simp add: transpose_mat_def map_nth)
qed

lemma split_columns:
  assumes "wf_mat m" and "ncols m = a + b"
  shows "hstack_mat (cols_slice 0 a m) (cols_slice a (a + b) m) = Inr m"
proof -
  have "map2 (@) (map (slice 0 a) (rows m)) (map (slice a (a + b)) (rows m)) = rows m"
    using assms by (auto simp: list_eq_iff_nth_eq slice_def wf_mat_def list_all_length)
  then show ?thesis using assms(2)
    by (cases m) (simp add: hstack_mat_def cols_slice_def)
qed

lemma wf_transpose: "wf_mat (transpose_mat m)"
  by (simp add: wf_mat_def transpose_mat_def list_all_length)

lemma node_block_put_node:
  assumes "wf_arr3 a" and "length blk = dim0 a" and "list_all (\<lambda>row. length row = dim1 a) blk"
  shows "n \<noteq> ii \<Longrightarrow> node_block (put_node a ii blk) n = node_block a n"
    and "ii < dim2 a \<Longrightarrow> node_block (put_node a ii blk) ii = blk"
proof -
  from assms have lc: "length (cells a) = length blk"
    and lr: "\<forall>i<length blk. length (cells a ! i) = length (blk ! i)"
    and ll: "\<forall>i<length blk. \<forall>j<length (blk ! i). length (cells a ! i ! j) = dim2 a"
    by (auto simp: wf_arr3_def list_all_length)
  show "node_block (put_node a ii blk) n = node_block a n" if "n \<noteq> ii"
    using that lc lr
    by (auto simp: node_block_def put_node_def list_eq_iff_nth_eq)
  show "node_block (put_node a ii blk) ii = blk" if "ii < dim2 a"
    using that lc lr ll
    by (auto simp: node_block_def put_node_def list_eq_iff_nth_eq)
qed

lemma setitem_node_content:
  assumes "setitem_node a ii v = Inr a'" and "wf_arr3 a"
  shows "ii < dim2 a"
    and "broadcast_to (dim0 a) (dim1 a) v = Inr (node_block a' ii)"
    and "n \<noteq> ii \<Longrightarrow> node_block a' n = node_block a n"
proof -
  from assms(1) obtain blk where i: "ii < dim2 a"
    and b: "broadcast_to (dim0 a) (dim1 a) v = Inr blk" and a': "a' = put_node a ii blk"
    by (auto simp: setitem_node_def split: if_splits sum.splits)
  note sh = broadcast_to_shape[OF b]
  note nb = node_block_put_node[OF assms(2) conjunct1[OF sh] conjunct2[OF sh]]
  show "ii < dim2 a" by (rule i)
  show "broadcast_to (dim0 a) (dim1 a) v = Inr (node_block a' ii)"
    using b nb(2)[OF i] by (simp add: a')
  show "node_block a' n = node_block a n" if "n \<noteq> ii"
    using nb(1)[OF that] by (simp add: a')
qed

lemma fun_jac_loop_content:
  assumes "fun_jac_loop jac nstates ndyn nnondyn params const ii ys dy dp = Inr (dy', dp')"
    and "wf_arr3 dy" and "wf_arr3 dp"
  shows "(\<forall>j<length ys.
            broadcast_to (dim0 dy) (dim1 dy) (fst (jac (ys ! j) (take ndyn params) const)) =
              Inr (node_block dy' (ii + j)) \<and>
            (\<exists>blk. padded_dp nstates nnondyn (snd (jac (ys ! j) (take ndyn params) const)) = Inr blk \<and>
               broadcast_to (dim0 dp) (dim1 dp) blk = Inr (node_block dp' (ii + j)))) \<and>
         (\<forall>n. n < ii \<or> ii + length ys \<le> n \<longrightarrow>
            node_block dy' n = node_block dy n \<and> node_block dp' n = node_block dp n) \<and>
         (ys \<noteq> [] \<longrightarrow> ii + length ys \<le> dim2 dy \<and> ii + length ys \<le> dim2 dp)"
  using assms
proof (induction ys arbitrary: ii dy dp)
  case Nil
  then show ?case by simp
next
  case (Cons yi ys)
  from Cons.prems(1) obtain dy1 blk dp1 where
    s1: "setitem_node dy ii (fst (jac yi (take ndyn params) const)) = Inr dy1"
    and p: "padded_dp nstates nnondyn (snd (jac yi (take ndyn params) const)) = Inr blk"
    and s2: "setitem_node dp ii blk = Inr dp1"
    and rest: "fun_jac_loop jac nstates ndyn nnondyn params const (Suc ii) ys dy1 dp1 = Inr (dy', dp')"
    by (auto split: sum.splits)
  have wf1: "wf_arr3 dy1" using setitem_node_wf[OF s1 Cons.prems(2)] .
  have wf2: "wf_arr3 dp1" using setitem_node_wf[OF s2 Cons.prems(3)] .
  from setitem_node_dims[OF s1] have d1: "dim0 dy1 = dim0 dy" "dim1 dy1 = dim1 dy" "dim2 dy1 = dim2 dy"
    by simp_all
  from setitem_node_dims[OF s2] have d2: "dim0 dp1 = dim0 dp" "dim1 dp1 = dim1 dp" "dim2 dp1 = dim2 dp"
    by simp_all
  note c1 = setitem_node_content[OF s1 Cons.prems(2)]
  note c2 = setitem_node_content[OF s2 Cons.prems(3)]
  note IH = Cons.IH[OF rest wf1 wf2]
  have ih1: "broadcast_to (dim0 dy) (dim1 dy) (fst (jac (ys ! j) (take ndyn params) const)) =
              Inr (node_block dy' (Suc ii + j)) \<and>
            (\<exists>blk. padded_dp nstates nnondyn (snd (jac (ys ! j) (take ndyn params) const)) = Inr blk \<and>
               broadcast_to (dim0 dp) (dim1 dp) blk = Inr (node_block dp' (Suc ii + j)))"
    if "j < length ys" for j
    using conjunct1[OF IH, rule_format, OF that] by (simp only: d1 d2)
  have ih2: "node_block dy' n = node_block dy1 n \<and> node_block dp' n = node_block dp1 n"
    if "n < Suc ii \<or> Suc ii + length ys \<le> n" for n
    using conjunct1[OF conjunct2[OF IH], rule_format, OF that] .
  have ih3: "Suc ii + length ys \<le> dim2 dy \<and> Suc ii + length ys \<le> dim2 dp" if "ys \<noteq> []"
    using conjunct2[OF conjunct2[OF IH], rule_format, OF that] by (simp only: d1 d2)
  show ?case
  proof (intro conjI allI impI)
    fix j assume j: "j < length (yi # ys)"
    show "broadcast_to (dim0 dy) (dim1 dy) (fst (jac ((yi # ys) ! j) (take ndyn params) const)) =
              Inr (node_block dy' (ii + j))"
    proof (cases j)
      case 0
      then show ?thesis using c1(2) ih2[of ii] by simp
    next
      case (Suc j')
      then show ?thesis using ih1[of j'] j by simp
    qed
    show "\<exists>blk. padded_dp nstates nnondyn (snd (jac ((yi # ys) ! j) (take ndyn params) const)) = Inr blk \<and>
               broadcast_to (dim0 dp) (dim1 dp) blk = Inr (node_block dp' (ii + j))"
    proof (cases j)
      case 0
      then show ?thesis using p c2(2) ih2[of ii] by simp
    next
      case (Suc j')
      then show ?thesis using ih1[of j'] j by simp
    qed
  next
    fix n assume n: "n < ii \<or> ii + length (yi # ys) \<le> n"
    then have "n \<noteq> ii" "n < Suc ii \<or> Suc ii + length ys \<le> n" by auto
    then show "node_block dy' n = node_block dy n" "node_block dp' n = node_block dp n"
      using ih2[of n] c1(3)[of n] c2(3)[of n] by simp_all
  next
    show "ii + length (yi # ys) \<le> dim2 dy" using c1(1) ih3 by (cases ys) auto
    show "ii + length (yi # ys) \<le> dim2 dp" using c2(1) ih3 by (cases ys) auto
  qed
qed

lemma node_block_zeros3: "n < k \<Longrightarrow> node_block (zeros3 r c k) n = replicate r (replicate c 0)"
  by (simp add: node_block_def zeros3_def)

lemma fun_jac_raises_with_quadratures:
  assumes "0 < nquads" and "nstates \<noteq> 1" and "length (rows y) = nstates + nquads"
  shows "(\<forall>a ii raw blk. dim0 a = nstates + nquads \<and> ii < dim2 a \<and>
            padded_dp nstates nnondyn raw = Inr blk \<longrightarrow> setitem_node a ii blk = Inl ValueError) \<and>
         (\<exists>e. solve_fun_jac jac nstates ndyn nnondyn t y params const = Inl e)"
proof
  show "\<forall>a ii raw blk. dim0 a = nstates + nquads \<and> ii < dim2 a \<and>
            padded_dp nstates nnondyn raw = Inr blk \<longrightarrow> setitem_node a ii blk = Inl ValueError"
    using padded_block_not_placed[OF assms(1,2)] by blast
  show "\<exists>e. solve_fun_jac jac nstates ndyn nnondyn t y params const = Inl e"
  proof (cases "solve_fun_jac jac nstates ndyn nnondyn t y params const")
    case (Inl e)
    then show ?thesis by blast
  next
    case (Inr out)
    then obtain dy dp where
      l: "fun_jac_loop jac nstates ndyn nnondyn params const 0 (rows (transpose_mat y))
        (zeros3 (length (rows y)) (length (rows y)) (length t))
        (zeros3 (length (rows y)) (ndyn + nnondyn) (length t)) = Inr (dy, dp)"
      and nc: "0 < ncols y"
      by (rule solve_fun_jac_Inr)
    from nc obtain y0 ys where r: "rows (transpose_mat y) = y0 # ys"
      by (cases "rows (transpose_mat y)") (auto simp: transpose_mat_def)
    from l[unfolded r] obtain dy1 blk dp1 where
      s1: "setitem_node (zeros3 (length (rows y)) (length (rows y)) (length t)) 0
             (fst (jac y0 (take ndyn params) const)) = Inr dy1"
      and p: "padded_dp nstates nnondyn (snd (jac y0 (take ndyn params) const)) = Inr blk"
      and s2: "setitem_node (zeros3 (length (rows y)) (ndyn + nnondyn) (length t)) 0 blk = Inr dp1"
      by (auto split: sum.splits)
    from s1 have "0 < length t" by (auto simp: setitem_node_def zeros3_def split: if_splits)
    then have "setitem_node (zeros3 (length (rows y)) (ndyn + nnondyn) (length t)) 0 blk = Inl ValueError"
      using padded_block_not_placed[OF assms(1,2) _ _ p] assms(3) by (simp add: zeros3_def)
    with s2 show ?thesis by simp
  qed
qed

section \<open>Facts about the store\<close>

lemma deepcopy_arrays_prefix:
  "deepcopy_arrays st memo as = (st', bs) \<Longrightarrow>
     length st \<le> length st' \<and> take (length st) st' = st \<and> length bs = length as"
proof (induction as arbitrary: st memo st' bs)
  case Nil
  then show ?case by simp
next
  case (Cons a as)
  show ?case
  proof (cases "map_of memo a")
    case (Some a')
    with Cons.prems obtain bs' where r: "deepcopy_arrays st memo as = (st', bs')" and b: "bs = a' # bs'"
      by (auto split: prod.splits)
    from Cons.IH[OF r] b show ?thesis by simp
  next
    case None
    with Cons.prems obtain bs' where
      r: "deepcopy_arrays (st @ [st ! a]) ((a, length st) # memo) as = (st', bs')"
      and b: "bs = length st # bs'"
      by (auto split: prod.splits)
    from Cons.IH[OF r] have le: "Suc (length st) \<le> length st'"
      and tk: "take (Suc (length st)) st' = st @ [st ! a]" and lb: "length bs' = length as" by auto
    have "take (length st) st' = take (length st) (take (Suc (length st)) st')"
      by (simp add: min_def)
    also have "\<dots> = st" unfolding tk by simp
    finally show ?thesis using le lb b by simp
  qed
qed

lemma deepcopy_arrays_fresh:
  "deepcopy_arrays st memo as = (st', bs) \<Longrightarrow>
   list_all (\<lambda>(x, x'). n0 \<le> x' \<and> x' < length st) memo \<Longrightarrow>
   n0 \<le> length st \<Longrightarrow>
   list_all (\<lambda>b. n0 \<le> b \<and> b < length st') bs"
proof (induction as arbitrary: st memo st' bs)
  case Nil
  then show ?case by simp
next
  case (Cons a as)
  show ?case
  proof (cases "map_of memo a")
    case (Some a')
    with Cons.prems obtain bs' where r: "deepcopy_arrays st memo as = (st', bs')" and b: "bs = a' # bs'"
      by (auto split: prod.splits)
    from Some have "(a, a') \<in> set memo" by (rule map_of_SomeD)
    with Cons.prems(2) have "n0 \<le> a' \<and> a' < length st" by (auto simp: list_all_iff)
    moreover have "length st \<le> length st'" using deepcopy_arrays_prefix[OF r] by simp
    ultimately show ?thesis using Cons.IH[OF r Cons.prems(2,3)] b by simp
  next
    case None
    with Cons.prems obtain bs' where
      r: "deepcopy_arrays (st @ [st ! a]) ((a, length st) # memo) as = (st', bs')"
      and b: "bs = length st # bs'"
      by (auto split: prod.splits)
    have m: "list_all (\<lambda>(x, x'). n0 \<le> x' \<and> x' < length (st @ [st ! a])) ((a, length st) # memo)"
      using Cons.prems(2,3) by (auto simp: list_all_iff)
    have "Suc (length st) \<le> length st'" using deepcopy_arrays_prefix[OF r] by simp
    then show ?thesis using Cons.IH[OF r m] Cons.prems(3) b by simp
  qed
qed

lemma deepcopy_arrays_values:
  "deepcopy_arrays st memo as = (st', bs) \<Longrightarrow>
   list_all (\<lambda>(x, x'). x < length st \<and> x' < length st \<and> st ! x' = st ! x) memo \<Longrightarrow>
   list_all (\<lambda>a. a < length st) as \<Longrightarrow>
   i < length as \<Longrightarrow> st' ! (bs ! i) = st ! (as ! i)"
proof (induction as arbitrary: st memo st' bs i)
  case Nil
  then show ?case by simp
next
  case (Cons a as)
  have old: "st' ! j = st ! j" if "j < length st" "length st \<le> length st'" "take (length st) st' = st" for j
    using that by (metis nth_take)
  show ?case
  proof (cases "map_of memo a")
    case (Some a')
    with Cons.prems obtain bs' where r: "deepcopy_arrays st memo as = (st', bs')" and b: "bs = a' # bs'"
      by (auto split: prod.splits)
    from Some have "(a, a') \<in> set memo" by (rule map_of_SomeD)
    with Cons.prems(2) have a': "a' < length st" "st ! a' = st ! a" by (auto simp: list_all_iff)
    show ?thesis
    proof (cases i)
      case 0
      then show ?thesis using b a' old[OF a'(1)] deepcopy_arrays_prefix[OF r] by simp
    next
      case (Suc k)
      then show ?thesis using Cons.IH[OF r Cons.prems(2), where i = k] Cons.prems(3,4) b by simp
    qed
  next
    case None
    let ?st1 = "st @ [st ! a]"
    from None Cons.prems obtain bs' where
      r: "deepcopy_arrays ?st1 ((a, length st) # memo) as = (st', bs')"
      and b: "bs = length st # bs'"
      by (auto split: prod.splits)
    from Cons.prems(3) have a: "a < length st" and as: "list_all (\<lambda>a. a < length st) as" by auto
    have m: "list_all (\<lambda>(x, x'). x < length ?st1 \<and> x' < length ?st1 \<and> ?st1 ! x' = ?st1 ! x)
               ((a, length st) # memo)"
      using Cons.prems(2) a by (auto simp: list_all_iff nth_append)
    have as1: "list_all (\<lambda>a. a < length ?st1) as" using as by (auto simp: list_all_iff)
    from deepcopy_arrays_prefix[OF r] have p: "length ?st1 \<le> length st'" "take (length ?st1) st' = ?st1"
      by auto
    show ?thesis
    proof (cases i)
      case 0
      have "st' ! length st = take (length ?st1) st' ! length st" by simp
      then have "st' ! length st = ?st1 ! length st" unfolding p(2) .
      then show ?thesis using 0 b by simp
    next
      case (Suc k)
      with Cons.prems(4) have k: "k < length as" by simp
      from as k have "as ! k < length st" by (simp add: list_all_length)
      then have "?st1 ! (as ! k) = st ! (as ! k)" by (simp add: nth_append)
      then show ?thesis using Cons.IH[OF r m as1 k] Suc b by simp
    qed
  qed
qed


lemma list7: "length bs = 7 \<Longrightarrow> [bs ! 0, bs ! 1, bs ! 2, bs ! 3, bs ! 4, bs ! 5, bs ! 6] = bs"
  by (simp add: list_eq_iff_nth_eq less_Suc_eq eval_nat_numeral)

lemma length_array_refs: "length (array_refs g) = 7"
  by (simp add: array_refs_def)

lemma deepcopy_props:
  assumes "deepcopy h r = (h1, c)"
  shows "c = length (trajs h)"
    and "take (length (trajs h)) (trajs h1) = trajs h"
    and "length (trajs h1) = length (trajs h) + 1"
    and "take (length (dicts h)) (dicts h1) = dicts h"
    and "length (dicts h1) = length (dicts h) + 1"
    and "dicts h1 ! length (dicts h) = dicts h ! traj_aux (trajs h ! r)"
    and "length (arrays h) \<le> length (arrays h1)"
    and "take (length (arrays h)) (arrays h1) = arrays h"
    and "list_all (\<lambda>b. length (arrays h) \<le> b \<and> b < length (arrays h1)) (array_refs (trajs h1 ! c))"
    and "traj_aux (trajs h1 ! c) = length (dicts h)"
    and "traj_converged (trajs h1 ! c) = traj_converged (trajs h ! r)"
    and "valid_guess h r \<Longrightarrow>
           map ((!) (arrays h1)) (array_refs (trajs h1 ! c)) =
           map ((!) (arrays h)) (array_refs (trajs h ! r))"
proof -
  let ?g = "trajs h ! r"
  obtain st' bs where d: "deepcopy_arrays (arrays h) [] (array_refs ?g) = (st', bs)"
    by (cases "deepcopy_arrays (arrays h) [] (array_refs ?g)") auto
  let ?g' = "\<lparr>traj_t = bs ! 0, traj_y = bs ! 1, traj_q = bs ! 2, traj_p = bs ! 3,
              traj_nu = bs ! 4, traj_k = bs ! 5, traj_lam = bs ! 6,
              traj_aux = length (dicts h), traj_converged = traj_converged ?g\<rparr>"
  from assms d have h1: "h1 = \<lparr>arrays = st', dicts = dicts h @ [dicts h ! traj_aux ?g],
                               trajs = trajs h @ [?g']\<rparr>"
    and c: "c = length (trajs h)"
    by (auto simp: deepcopy_def Let_def array_refs_def)
  from deepcopy_arrays_prefix[OF d] have pre: "length (arrays h) \<le> length st'"
    "take (length (arrays h)) st' = arrays h" and lb: "length bs = 7"
    by (auto simp: array_refs_def)
  have g': "trajs h1 ! c = ?g'" by (simp add: h1 c)
  have refs: "array_refs ?g' = bs" using list7[OF lb] by (simp add: array_refs_def)
  show "c = length (trajs h)" by (rule c)
  show "take (length (trajs h)) (trajs h1) = trajs h" by (simp add: h1)
  show "length (trajs h1) = length (trajs h) + 1" by (simp add: h1)
  show "take (length (dicts h)) (dicts h1) = dicts h" by (simp add: h1)
  show "length (dicts h1) = length (dicts h) + 1" by (simp add: h1)
  show "dicts h1 ! length (dicts h) = dicts h ! traj_aux ?g" by (simp add: h1)
  show "length (arrays h) \<le> length (arrays h1)" using pre by (simp add: h1)
  show "take (length (arrays h)) (arrays h1) = arrays h" using pre by (simp add: h1)
  show "list_all (\<lambda>b. length (arrays h) \<le> b \<and> b < length (arrays h1)) (array_refs (trajs h1 ! c))"
    unfolding g' refs using deepcopy_arrays_fresh[OF d, of "length (arrays h)"] by (simp add: h1)
  show "traj_aux (trajs h1 ! c) = length (dicts h)" by (simp add: g')
  show "traj_converged (trajs h1 ! c) = traj_converged ?g" by (simp add: g')
  show "map ((!) (arrays h1)) (array_refs (trajs h1 ! c)) = map ((!) (arrays h)) (array_refs ?g)"
    if v: "valid_guess h r"
  proof -
    from v have ok: "list_all (\<lambda>a. a < length (arrays h)) (array_refs ?g)"
      by (simp add: valid_guess_def)
    have "st' ! (bs ! i) = arrays h ! (array_refs ?g ! i)" if "i < length (array_refs ?g)" for i
      using deepcopy_arrays_values[OF d _ ok that] by simp
    then have "map ((!) st') bs = map ((!) (arrays h)) (array_refs ?g)"
      using lb by (simp add: list_eq_iff_nth_eq length_array_refs)
    then show ?thesis unfolding g' refs by (simp add: h1)
  qed
qed

lemma compose_props:
  assumes "compose h c nstates nquads ndyn nnondyn res ct = (h', out)"
  shows "sol out = length (trajs h)"
    and "success out = opt_success res" and "message out = opt_message res"
    and "rms_residuals out = opt_rms_residuals res" and "niter out = opt_niter res"
    and "take (length (arrays h)) (arrays h') = arrays h"
    and "length (arrays h') = length (arrays h) + 6"
    and "length (dicts h') = length (dicts h)"
    and "n \<le> traj_aux (trajs h ! c) \<Longrightarrow> take n (dicts h') = take n (dicts h)"
    and "take (length (trajs h)) (trajs h') = trajs h"
    and "length (trajs h') = length (trajs h) + 1"
    and "array_refs (trajs h' ! length (trajs h)) =
           [length (arrays h), length (arrays h) + 1, length (arrays h) + 2,
            length (arrays h) + 4, length (arrays h) + 5, traj_k (trajs h ! c),
            length (arrays h) + 3]"
    and "traj_aux (trajs h' ! length (trajs h)) = traj_aux (trajs h ! c)"
  using assms by (auto simp: compose_def Let_def array_refs_def)


lemma solve_rest_cases:
  assumes "solve_rest eng time0 time1 self h c nstates nquads = ((self', h'), result)"
  shows "self' = self \<and>
     ((h' = h \<and> (\<exists>e. result = Inl e)) \<or>
      (\<exists>res out. result = Inr out \<and>
         compose h c nstates nquads (np_size (arrays h ! traj_p (trajs h ! c)))
           (np_size (arrays h ! traj_nu (trajs h ! c))) res (time1 - time0) = (h', out)))"
  using assms unfolding solve_rest_def Let_def
  by (auto split: sum.splits prod.splits if_splits)

lemma solve_rest_raises:
  assumes "\<not> returns (if 0 < nquads
                        then hstack (arrays h ! traj_y (trajs h ! c)) (arrays h ! traj_q (trajs h ! c))
                        else Inr (arrays h ! traj_y (trajs h ! c))) \<or>
           \<not> returns (hstack (arrays h ! traj_p (trajs h ! c)) (arrays h ! traj_nu (trajs h ! c)))"
  shows "\<not> returns (snd (solve_rest eng time0 time1 self h c nstates nquads))"
  using assms unfolding solve_rest_def Let_def
  by (auto split: sum.splits prod.splits if_splits)

lemma solve_rest_result:
  assumes "(if 0 < nquads
            then hstack (arrays h ! traj_y (trajs h ! c)) (arrays h ! traj_q (trajs h ! c))
            else Inr (arrays h ! traj_y (trajs h ! c))) = Inr yq"
    and "hstack (arrays h ! traj_p (trajs h ! c)) (arrays h ! traj_nu (trajs h ! c)) = Inr pnu"
  shows "snd (solve_rest eng time0 time1 self h c nstates nquads) =
      (case engine_call eng self (arrays h ! traj_k (trajs h ! c)) nstates nquads
              (np_size (arrays h ! traj_p (trajs h ! c))) (np_size (arrays h ! traj_nu (trajs h ! c)))
              (arrays h ! traj_t (trajs h ! c)) (np_T yq) pnu of
         Inl e \<Rightarrow> Inl e
       | Inr res \<Rightarrow>
           Inr \<lparr>sol = length (trajs h), success = opt_success res, message = opt_message res,
                rms_residuals = opt_rms_residuals res, niter = opt_niter res\<rparr>)"
  using assms unfolding solve_rest_def Let_def
  by (auto simp: compose_def Let_def split: sum.splits prod.splits if_splits)

lemma shape1_size_pos: "shape1 a = Inr n \<Longrightarrow> 0 < np_size a \<Longrightarrow> 0 < n"
  by (cases a) auto

lemma solve_cases:
  assumes "solve eng time0 time1 self h r = ((self', h'), result)"
  obtains (early) h1 c e where "deepcopy h r = (h1, c)" "h' = h1" "result = Inl e"
      "\<not> returns (shape1 (arrays h1 ! traj_y (trajs h1 ! c))) \<or>
       (0 < np_size (arrays h1 ! traj_q (trajs h1 ! c)) \<and>
        \<not> returns (shape1 (arrays h1 ! traj_q (trajs h1 ! c))))"
  | (rest) h1 c s nstates nquads where "deepcopy h r = (h1, c)"
      "solve_rest eng time0 time1 s h1 c nstates nquads = ((self', h'), result)"
      "max_nodes s = max_nodes self"
      "0 < nquads \<longrightarrow> 0 < np_size (arrays h1 ! traj_q (trajs h1 ! c))"
proof -
  obtain h1 c where d: "deepcopy h r = (h1, c)" by (cases "deepcopy h r") auto
  show thesis
  proof (cases "shape1 (arrays h1 ! traj_y (trajs h1 ! c))")
    case (Inl e)
    with assms d show ?thesis by (intro early[of h1 c e]) (auto simp: solve_def)
  next
    case y: (Inr nstates)
    show ?thesis
    proof (cases "0 < np_size (arrays h1 ! traj_q (trajs h1 ! c))")
      case False
      with assms d y show ?thesis
        by (intro rest[of h1 c "self\<lparr>quadrature_function := return_nil\<rparr>" nstates 0])
           (auto simp: solve_def)
    next
      case True
      show ?thesis
      proof (cases "shape1 (arrays h1 ! traj_q (trajs h1 ! c))")
        case (Inl e)
        with assms d y True show ?thesis by (intro early[of h1 c e]) (auto simp: solve_def)
      next
        case (Inr nquads)
        with assms d y True show ?thesis
          by (intro rest[of h1 c self nstates nquads]) (auto simp: solve_def)
      qed
    qed
  qed
qed

lemma solve_frame:
  assumes "solve eng time0 time1 self h r = ((self', h'), result)"
  shows "heap_extends h h'" and "\<And>out. result = Inr out \<Longrightarrow> fresh_solution h h' (sol out)"
proof -
  have tt: "take n xs = ys" if "take m xs = zs" "take n zs = ys" "n \<le> m"
    for n m and xs ys zs :: "'a list"
    using that by (metis min.absorb1 take_take)
  from assms show "heap_extends h h'"
  proof (cases rule: solve_cases)
    case (early h1 c e)
    from deepcopy_props[OF early(1)] show ?thesis
      by (simp add: heap_extends_def early(2))
  next
    case (rest h1 c s nstates nquads)
    note d = deepcopy_props[OF rest(1)]
    from solve_rest_cases[OF rest(2)] have "h' = h1 \<or>
        (\<exists>res out. compose h1 c nstates nquads (np_size (arrays h1 ! traj_p (trajs h1 ! c)))
           (np_size (arrays h1 ! traj_nu (trajs h1 ! c))) res (time1 - time0) = (h', out))"
      by blast
    then show ?thesis
    proof (elim disjE exE)
      assume "h' = h1"
      with d show ?thesis by (simp add: heap_extends_def)
    next
      fix res out
      assume c: "compose h1 c nstates nquads (np_size (arrays h1 ! traj_p (trajs h1 ! c)))
           (np_size (arrays h1 ! traj_nu (trajs h1 ! c))) res (time1 - time0) = (h', out)"
      note p = compose_props[OF c]
      have a: "take (length (arrays h)) (arrays h') = arrays h"
        using tt[OF p(6) d(8) d(7)] .
      have "take (length (dicts h)) (dicts h') = take (length (dicts h)) (dicts h1)"
        using p(9)[of "length (dicts h)"] d(10) by simp
      then have b: "take (length (dicts h)) (dicts h') = dicts h" by (simp add: d(4))
      have t: "take (length (trajs h)) (trajs h') = trajs h"
        using tt[OF p(10) d(2)] d(3) by simp
      show ?thesis using a b t p(7,8,11) d(3,5,7)
        by (simp add: heap_extends_def)
    qed
  qed
  fix out assume r: "result = Inr out"
  from assms show "fresh_solution h h' (sol out)"
  proof (cases rule: solve_cases)
    case (early h1 c e)
    with r show ?thesis by simp
  next
    case (rest h1 c s nstates nquads)
    note d = deepcopy_props[OF rest(1)]
    from solve_rest_cases[OF rest(2)] r obtain res where
      c: "compose h1 c nstates nquads (np_size (arrays h1 ! traj_p (trajs h1 ! c)))
           (np_size (arrays h1 ! traj_nu (trajs h1 ! c))) res (time1 - time0) = (h', out)"
      by auto
    note p = compose_props[OF c]
    have k: "length (arrays h) \<le> traj_k (trajs h1 ! c) \<and> traj_k (trajs h1 ! c) < length (arrays h1)"
      using d(9) by (simp add: array_refs_def)
    show ?thesis
      unfolding fresh_solution_def p(1) p(12) p(13)
      using k d(3,5,7,10) p(7,8,11) by simp
  qed
qed

lemma heap_extends_nth:
  assumes "heap_extends h h'"
  shows "a < length (arrays h) \<Longrightarrow> arrays h' ! a = arrays h ! a"
    and "d < length (dicts h) \<Longrightarrow> dicts h' ! d = dicts h ! d"
    and "r < length (trajs h) \<Longrightarrow> trajs h' ! r = trajs h ! r"
proof -
  from assms have a: "take (length (arrays h)) (arrays h') = arrays h"
    and d: "take (length (dicts h)) (dicts h') = dicts h"
    and t: "take (length (trajs h)) (trajs h') = trajs h"
    by (auto simp: heap_extends_def)
  show "a < length (arrays h) \<Longrightarrow> arrays h' ! a = arrays h ! a" by (metis a nth_take)
  show "d < length (dicts h) \<Longrightarrow> dicts h' ! d = dicts h ! d" by (metis d nth_take)
  show "r < length (trajs h) \<Longrightarrow> trajs h' ! r = trajs h ! r" by (metis t nth_take)
qed

lemma deepcopy_field_values:
  assumes "deepcopy h r = (h1, c)" and "valid_guess h r"
  shows "arrays h1 ! traj_t (trajs h1 ! c) = arrays h ! traj_t (trajs h ! r)"
    and "arrays h1 ! traj_y (trajs h1 ! c) = arrays h ! traj_y (trajs h ! r)"
    and "arrays h1 ! traj_q (trajs h1 ! c) = arrays h ! traj_q (trajs h ! r)"
    and "arrays h1 ! traj_p (trajs h1 ! c) = arrays h ! traj_p (trajs h ! r)"
    and "arrays h1 ! traj_nu (trajs h1 ! c) = arrays h ! traj_nu (trajs h ! r)"
    and "arrays h1 ! traj_k (trajs h1 ! c) = arrays h ! traj_k (trajs h ! r)"
    and "arrays h1 ! traj_lam (trajs h1 ! c) = arrays h ! traj_lam (trajs h ! r)"
  using deepcopy_props(12)[OF assms] by (simp_all add: array_refs_def)

lemma solve_rest_solver: "fst (fst (solve_rest eng time0 time1 self h c nstates nquads)) = self"
  by (cases "solve_rest eng time0 time1 self h c nstates nquads")
     (auto dest: solve_rest_cases)

lemma solve_solver_after:
  "fst (fst (solve eng time0 time1 self h r)) = self \<or>
   fst (fst (solve eng time0 time1 self h r)) = self\<lparr>quadrature_function := return_nil\<rparr>"
  by (auto simp: solve_def solve_rest_solver split: prod.splits sum.splits)

section \<open>The claims\<close>

text \<open>
  C5. For every initial guess, calling \<^verbatim>\<open>solve\<close> leaves the caller's guess object
  unmodified: every object that was in the store before the call is unchanged after it,
  so the guess object still refers to the same arrays and dictionary and each of
  \<^verbatim>\<open>t, y, q, p, nu, k, lam, aux, converged\<close> compares equal before and after; and the
  solution returned, with every object it refers to, was allocated during the call, so
  it shares nothing with the caller's object.
\<close>

theorem solve_leaves_guess_unmodified:
  assumes "valid_guess h r" and "solve eng time0 time1 self h r = ((self', h'), result)"
  shows "heap_extends h h' \<and> trajs h' ! r = trajs h ! r \<and> guess_fields h' r = guess_fields h r \<and>
         (\<forall>out. result = Inr out \<longrightarrow> fresh_solution h h' (sol out))"
proof -
  note e = solve_frame(1)[OF assms(2)]
  note n = heap_extends_nth[OF e]
  from assms(1) have r: "r < length (trajs h)"
    and a: "list_all (\<lambda>a. a < length (arrays h)) (array_refs (trajs h ! r))"
    and d: "traj_aux (trajs h ! r) < length (dicts h)"
    by (auto simp: valid_guess_def)
  have g: "trajs h' ! r = trajs h ! r" using n(3)[OF r] .
  have "map ((!) (arrays h')) (array_refs (trajs h ! r)) = map ((!) (arrays h)) (array_refs (trajs h ! r))"
    using a n(1) by (simp add: list_all_iff)
  then have "guess_fields h' r = guess_fields h r"
    using n(2)[OF d] by (simp add: guess_fields_def g)
  with e g solve_frame(2)[OF assms(2)] show ?thesis by simp
qed

theorem solve_leaves_guess_unmodified_witness:
  "valid_guess sample_heap 1 \<and>
   returns (snd (solve probe_engine 0 1 sample_solver sample_heap 1)) \<and>
   guess_fields (snd (fst (solve probe_engine 0 1 sample_solver sample_heap 1))) 1 =
     guess_fields sample_heap 1"
proof -
  have v: "valid_guess sample_heap 1"
    by (simp add: valid_guess_def sample_heap_def array_refs_def)
  obtain self' h' result where
    s: "solve probe_engine 0 1 sample_solver sample_heap 1 = ((self', h'), result)"
    by (metis prod.exhaust)
  have h': "snd (fst (solve probe_engine 0 1 sample_solver sample_heap 1)) = h'"
    unfolding s by simp
  have "returns (snd (solve probe_engine 0 1 sample_solver sample_heap 1))"
    by code_simp
  moreover have "guess_fields h' 1 = guess_fields sample_heap 1"
    using solve_leaves_guess_unmodified[OF v s] by blast
  ultimately show ?thesis unfolding h' using v by blast
qed

text \<open>
  C8. With \<^verbatim>\<open>nquads > 0\<close>, the matrix returned by the dynamics closure has one
  column per mesh node, and the column of a node is the result of the derivative
  function followed by the result of the quadrature function, both evaluated on the
  first \<^verbatim>\<open>nstates\<close> entries of the node's column and the first \<^verbatim>\<open>ndyn\<close>
  parameters. With \<^verbatim>\<open>nquads = 0\<close> the column of a node is the result of the
  derivative function alone, and the closure does not depend on the quadrature function
  of the solver object. The closure returns whenever there is a node and the results of
  each function have one length over all nodes.
\<close>

theorem solve_fun_stacks_derivative_over_quadrature:
  "(0 < nquads \<and> solve_fun self nstates nquads ndyn t y params const = Inr out \<longrightarrow>
      ncols out = ncols y \<and>
      (\<forall>i<ncols y. column out i =
         derivative_function self (take nstates (column y i)) (take ndyn params) const @
         quadrature_function self (take nstates (column y i)) (take ndyn params) const)) \<and>
   (nquads = 0 \<and> solve_fun self nstates nquads ndyn t y params const = Inr out \<longrightarrow>
      ncols out = ncols y \<and>
      (\<forall>i<ncols y. column out i =
         derivative_function self (take nstates (column y i)) (take ndyn params) const)) \<and>
   (nquads = 0 \<longrightarrow>
      solve_fun (self\<lparr>quadrature_function := g\<rparr>) nstates nquads ndyn t y params const =
      solve_fun self nstates nquads ndyn t y params const) \<and>
   (0 < ncols y \<and>
    (\<forall>i<ncols y. length (derivative_function self (take nstates (column y i))
                            (take ndyn params) const) = m) \<and>
    (\<forall>i<ncols y. length (quadrature_function self (take nstates (column y i))
                            (take ndyn params) const) = k) \<longrightarrow>
      returns (solve_fun self nstates nquads ndyn t y params const))"
proof (intro conjI impI)
  let ?d = "\<lambda>yi. derivative_function self (take nstates yi) (take ndyn params) const"
  let ?q = "\<lambda>yi. quadrature_function self (take nstates yi) (take ndyn params) const"
  let ?ys = "rows (transpose_mat y)"
  {
    assume a: "0 < nquads \<and> solve_fun self nstates nquads ndyn t y params const = Inr out"
    then obtain o1 o2 o12 where
      o1: "vstack (map ?d ?ys) = Inr o1" and o2: "vstack (map ?q ?ys) = Inr o2"
      and o12: "hstack_mat o1 o2 = Inr o12" and out: "out = transpose_mat o12"
      by (auto simp: solve_fun_def split: sum.splits)
    have r1: "rows o1 = map ?d ?ys" and w1: "wf_mat o1" using vstack_Inr[OF o1] by auto
    have r2: "rows o2 = map ?q ?ys" and w2: "wf_mat o2" using vstack_Inr[OF o2] by auto
    have w12: "wf_mat o12" using wf_hstack_mat[OF w1 w2 o12] .
    have r12: "rows o12 = map2 (@) (rows o1) (rows o2)" using hstack_mat_Inr[OF o12] by simp
    have len: "length (rows o12) = ncols y" by (simp add: r12 r1 r2 length_rows_transpose)
    show "ncols out = ncols y" by (simp add: out ncols_transpose len)
    show "\<forall>i<ncols y. column out i = ?d (column y i) @ ?q (column y i)"
    proof (intro allI impI)
      fix i assume i: "i < ncols y"
      then have "column out i = rows o12 ! i"
        unfolding out using w12 len by (intro column_transpose) simp_all
      also have "\<dots> = ?d (?ys ! i) @ ?q (?ys ! i)"
        using i by (simp add: r12 r1 r2 length_rows_transpose)
      finally show "column out i = ?d (column y i) @ ?q (column y i)"
        using i by (simp add: rows_transpose_nth)
    qed
  }
  {
    assume a: "nquads = 0 \<and> solve_fun self nstates nquads ndyn t y params const = Inr out"
    then obtain o1 where o1: "vstack (map ?d ?ys) = Inr o1" and out: "out = transpose_mat o1"
      by (auto simp: solve_fun_def split: sum.splits)
    have r1: "rows o1 = map ?d ?ys" and w1: "wf_mat o1" using vstack_Inr[OF o1] by auto
    have len: "length (rows o1) = ncols y" by (simp add: r1 length_rows_transpose)
    show "ncols out = ncols y" by (simp add: out ncols_transpose len)
    show "\<forall>i<ncols y. column out i = ?d (column y i)"
    proof (intro allI impI)
      fix i assume i: "i < ncols y"
      then have "column out i = rows o1 ! i"
        unfolding out using w1 len by (intro column_transpose) simp_all
      also have "\<dots> = ?d (?ys ! i)"
        using i by (simp add: r1 length_rows_transpose)
      finally show "column out i = ?d (column y i)"
        using i by (simp add: rows_transpose_nth)
    qed
  }
  {
    assume "nquads = 0"
    then show "solve_fun (self\<lparr>quadrature_function := g\<rparr>) nstates nquads ndyn t y params const =
      solve_fun self nstates nquads ndyn t y params const"
      by (simp add: solve_fun_def)
  }
  {
    assume "0 < ncols y \<and>
      (\<forall>i<ncols y. length (?d (column y i)) = m) \<and> (\<forall>i<ncols y. length (?q (column y i)) = k)"
    then show "returns (solve_fun self nstates nquads ndyn t y params const)"
      using solve_fun_returns[of y self nstates ndyn params const m k nquads t] by blast
  }
qed


theorem solve_fun_stacks_derivative_over_quadrature_witness:
  "solve_fun sample_solver 1 1 0 [0, 1] (Mat 2 [[5, 6], [7, 8]]) [] (Arr1 []) =
     Inr (Mat 2 [[5, 6], [1, 1]]) \<and>
   column (Mat 2 [[5, 6], [1, 1]]) 1 = [6] @ [1] \<and>
   solve_fun sample_solver 1 0 0 [0, 1] (Mat 2 [[5, 6]]) [] (Arr1 []) = Inr (Mat 2 [[5, 6]]) \<and>
   solve_fun (sample_solver\<lparr>quadrature_function := return_nil\<rparr>) 1 0 0 [0, 1] (Mat 2 [[5, 6]]) []
     (Arr1 []) = Inr (Mat 2 [[5, 6]])"
proof -
  have a: "solve_fun sample_solver 1 1 0 [0, 1] (Mat 2 [[5, 6], [7, 8]]) [] (Arr1 []) =
     Inr (Mat 2 [[5, 6], [1, 1]])"
    by (simp add: solve_fun_def sample_solver_def transpose_mat_def hstack_mat_def upt_rec)
  have b: "solve_fun sample_solver 1 0 0 [0, 1] (Mat 2 [[5, 6]]) [] (Arr1 []) = Inr (Mat 2 [[5, 6]])"
    by (simp add: solve_fun_def sample_solver_def transpose_mat_def upt_rec)
  note th = solve_fun_stacks_derivative_over_quadrature
    [of 1 sample_solver 1 0 "[0, 1]" "Mat 2 [[5, 6], [7, 8]]" "[]" "Arr1 []" "Mat 2 [[5, 6], [1, 1]]"]
  note th0 = solve_fun_stacks_derivative_over_quadrature
    [of 0 sample_solver 1 0 "[0, 1]" "Mat 2 [[5, 6]]" "[]" "Arr1 []" "Mat 2 [[5, 6]]" return_nil]
  from th a have "column (Mat 2 [[5, 6], [1, 1]]) 1 =
      derivative_function sample_solver (take 1 (column (Mat 2 [[5, 6], [7, 8]]) 1)) (take 0 []) (Arr1 []) @
      quadrature_function sample_solver (take 1 (column (Mat 2 [[5, 6], [7, 8]]) 1)) (take 0 []) (Arr1 [])"
    by simp
  then have c: "column (Mat 2 [[5, 6], [1, 1]]) 1 = [6] @ [1]"
    by (simp add: sample_solver_def column_def)
  from th0 b have "solve_fun (sample_solver\<lparr>quadrature_function := return_nil\<rparr>) 1 0 0 [0, 1]
      (Mat 2 [[5, 6]]) [] (Arr1 []) = Inr (Mat 2 [[5, 6]])"
    by simp
  with a b c show ?thesis by simp
qed

text \<open>
  C6. When the dynamics-Jacobian closure returns, it returns the state-sensitivity
  array alone if \<^verbatim>\<open>ndyn + nnondyn = 0\<close>, and the pair of the state-sensitivity and
  the parameter-sensitivity arrays if \<^verbatim>\<open>ndyn + nnondyn > 0\<close>. The two arrays are
  the ones the loop has filled: three-axis arrays with one slice per mesh time, in which
  the slice of each node of \<open>y\<close> is the state block of the analytic function at
  that node, respectively its padded parameter block, broadcast to the shape of the
  slice, and the slice of every further mesh time is zero.
\<close>

theorem solve_fun_jac_return_form:
  assumes "solve_fun_jac jac nstates ndyn nnondyn t y params const = Inr out"
  shows "\<exists>df_dy df_dp.
           (ndyn + nnondyn = 0 \<longrightarrow> out = StateOnly df_dy) \<and>
           (0 < ndyn + nnondyn \<longrightarrow> out = StateAndParams df_dy df_dp) \<and>
           wf_arr3 df_dy \<and> dim0 df_dy = length (rows y) \<and> dim1 df_dy = length (rows y) \<and>
           dim2 df_dy = length t \<and>
           wf_arr3 df_dp \<and> dim0 df_dp = length (rows y) \<and> dim1 df_dp = ndyn + nnondyn \<and>
           dim2 df_dp = length t \<and>
           ncols y \<le> length t \<and>
           (\<forall>n<ncols y.
              broadcast_to (length (rows y)) (length (rows y))
                (fst (jac (column y n) (take ndyn params) const)) = Inr (node_block df_dy n) \<and>
              (\<exists>blk. padded_dp nstates nnondyn (snd (jac (column y n) (take ndyn params) const)) =
                       Inr blk \<and>
                     broadcast_to (length (rows y)) (ndyn + nnondyn) blk =
                       Inr (node_block df_dp n))) \<and>
           (\<forall>n. ncols y \<le> n \<and> n < length t \<longrightarrow>
              node_block df_dy n = replicate (length (rows y)) (replicate (length (rows y)) 0) \<and>
              node_block df_dp n = replicate (length (rows y)) (replicate (ndyn + nnondyn) 0))"
proof -
  let ?r = "length (rows y)"
  let ?z1 = "zeros3 ?r ?r (length t)"
  let ?z2 = "zeros3 ?r (ndyn + nnondyn) (length t)"
  from assms obtain dy dp where
    l: "fun_jac_loop jac nstates ndyn nnondyn params const 0 (rows (transpose_mat y)) ?z1 ?z2 =
          Inr (dy, dp)"
    and out: "out = (if ndyn + nnondyn = 0 then StateOnly dy else StateAndParams dy dp)"
    and nc: "0 < ncols y"
    by (rule solve_fun_jac_Inr)
  have dz: "dim0 ?z1 = ?r" "dim1 ?z1 = ?r" "dim2 ?z1 = length t"
    "dim0 ?z2 = ?r" "dim1 ?z2 = ndyn + nnondyn" "dim2 ?z2 = length t"
    by (simp_all add: zeros3_def)
  note c = fun_jac_loop_content[OF l wf_zeros3 wf_zeros3, unfolded dz]
  from fun_jac_loop_dims[OF l] have d: "dim0 dy = ?r" "dim1 dy = ?r" "dim2 dy = length t"
    "dim0 dp = ?r" "dim1 dp = ndyn + nnondyn" "dim2 dp = length t"
    by (simp_all add: dz)
  have ne: "rows (transpose_mat y) \<noteq> []" using nc length_rows_transpose[of y] by auto
  have le: "ncols y \<le> length t"
    using conjunct2[OF conjunct2[OF c], rule_format, OF ne] by (simp add: length_rows_transpose)
  have wf: "wf_arr3 dy" "wf_arr3 dp"
  proof -
    have "\<And>ii ys a b a' b'. fun_jac_loop jac nstates ndyn nnondyn params const ii ys a b = Inr (a', b') \<Longrightarrow>
            wf_arr3 a \<Longrightarrow> wf_arr3 b \<Longrightarrow> wf_arr3 a' \<and> wf_arr3 b'"
    proof -
      fix ii ys a b a' b'
      show "fun_jac_loop jac nstates ndyn nnondyn params const ii ys a b = Inr (a', b') \<Longrightarrow>
            wf_arr3 a \<Longrightarrow> wf_arr3 b \<Longrightarrow> wf_arr3 a' \<and> wf_arr3 b'"
      proof (induction ys arbitrary: ii a b)
        case Nil
        then show ?case by simp
      next
        case (Cons yi ys)
        from Cons.prems(1) obtain a1 blk b1 where
          s1: "setitem_node a ii (fst (jac yi (take ndyn params) const)) = Inr a1"
          and s2: "setitem_node b ii blk = Inr b1"
          and rest: "fun_jac_loop jac nstates ndyn nnondyn params const (Suc ii) ys a1 b1 = Inr (a', b')"
          by (auto split: sum.splits)
        show ?case
          using Cons.IH[OF rest setitem_node_wf[OF s1 Cons.prems(2)] setitem_node_wf[OF s2 Cons.prems(3)]] .
      qed
    qed
    from this[OF l wf_zeros3 wf_zeros3] show "wf_arr3 dy" "wf_arr3 dp" by simp_all
  qed
  have nodes: "broadcast_to ?r ?r (fst (jac (column y n) (take ndyn params) const)) =
                 Inr (node_block dy n) \<and>
               (\<exists>blk. padded_dp nstates nnondyn (snd (jac (column y n) (take ndyn params) const)) =
                        Inr blk \<and>
                      broadcast_to ?r (ndyn + nnondyn) blk = Inr (node_block dp n))"
    if n: "n < ncols y" for n
  proof -
    from n have "n < length (rows (transpose_mat y))" by (simp add: length_rows_transpose)
    from conjunct1[OF c, rule_format, OF this] show ?thesis
      using n by (simp add: rows_transpose_nth)
  qed
  have rest: "node_block dy n = replicate ?r (replicate ?r 0) \<and>
              node_block dp n = replicate ?r (replicate (ndyn + nnondyn) 0)"
    if n: "ncols y \<le> n \<and> n < length t" for n
  proof -
    from n have "n < 0 \<or> 0 + length (rows (transpose_mat y)) \<le> n"
      by (simp add: length_rows_transpose)
    from conjunct1[OF conjunct2[OF c], rule_format, OF this] n show ?thesis
      by (simp add: node_block_zeros3)
  qed
  show ?thesis
    apply (rule exI[of _ dy])
    apply (rule exI[of _ dp])
    using out wf d le nodes rest by simp
qed


theorem solve_fun_jac_return_form_witness:
  "solve_fun_jac (sample_jac 1) 1 0 0 [0, 1] (Mat 2 [[5, 6]]) [] (Arr1 []) =
     Inr (StateOnly (Arr3 1 1 2 [[[2, 2]]])) \<and>
   solve_fun_jac (sample_jac 1) 1 1 1 [0, 1] (Mat 2 [[5, 6]]) [4, 9] (Arr1 []) =
     Inr (StateAndParams (Arr3 1 1 2 [[[2, 2]]]) (Arr3 1 2 2 [[[4, 4], [0, 0]]])) \<and>
   (\<exists>blk. padded_dp 1 1 (Arr2 (Mat 1 [[4]])) = Inr blk \<and>
      broadcast_to 1 2 blk = Inr (node_block (Arr3 1 2 2 [[[4, 4], [0, 0]]]) 1))"
proof -
  have a: "solve_fun_jac (sample_jac 1) 1 0 0 [0, 1] (Mat 2 [[5, 6]]) [] (Arr1 []) =
     Inr (StateOnly (Arr3 1 1 2 [[[2, 2]]]))"
    by code_simp
  have b: "solve_fun_jac (sample_jac 1) 1 1 1 [0, 1] (Mat 2 [[5, 6]]) [4, 9] (Arr1 []) =
     Inr (StateAndParams (Arr3 1 1 2 [[[2, 2]]]) (Arr3 1 2 2 [[[4, 4], [0, 0]]]))"
    by code_simp
  from solve_fun_jac_return_form[OF b] obtain df_dy df_dp where
    o: "StateAndParams (Arr3 1 1 2 [[[2, 2]]]) (Arr3 1 2 2 [[[4, 4], [0, 0]]]) =
          StateAndParams df_dy df_dp"
    and n: "\<forall>n<ncols (Mat 2 [[5, 6]]).
              \<exists>blk. padded_dp 1 1 (snd (sample_jac 1 (column (Mat 2 [[5, 6]]) n) (take 1 [4, 9])
                         (Arr1 []))) = Inr blk \<and>
                     broadcast_to (length (rows (Mat 2 [[5, 6]]))) (1 + 1) blk =
                       Inr (node_block df_dp n)"
    by auto
  from o have dp: "df_dp = Arr3 1 2 2 [[[4, 4], [0, 0]]]" by simp
  from n[rule_format, of 1] have
    "\<exists>blk. padded_dp 1 1 (Arr2 (Mat 1 [[4]])) = Inr blk \<and>
       broadcast_to 1 2 blk = Inr (node_block (Arr3 1 2 2 [[[4, 4], [0, 0]]]) 1)"
    unfolding dp by (simp add: sample_jac_def numeral_2_eq_2)
  with a b show ?thesis by simp
qed

text \<open>
  C7. When \<^verbatim>\<open>nnondyn > 0\<close> and the analytic function returns well-formed arrays,
  then in the parameter-sensitivity array returned by the dynamics-Jacobian closure, for
  every node and every row, the columns from \<^verbatim>\<open>ndyn\<close> on are the \<^verbatim>\<open>nnondyn\<close>
  zeros of the padding.
\<close>

theorem solve_fun_jac_padding_is_zero:
  assumes "\<forall>s p c. wf_ndarray (snd (jac s p c))"
    and "solve_fun_jac jac nstates ndyn nnondyn t y params const = Inr out"
    and "0 < nnondyn"
  shows "\<exists>df_dy df_dp. out = StateAndParams df_dy df_dp \<and>
           (\<forall>n<length t. \<forall>i<length (rows y).
              drop ndyn (node_block df_dp n ! i) = replicate nnondyn 0)"
proof -
  from assms(2) obtain dy dp where
    l: "fun_jac_loop jac nstates ndyn nnondyn params const 0 (rows (transpose_mat y))
        (zeros3 (length (rows y)) (length (rows y)) (length t))
        (zeros3 (length (rows y)) (ndyn + nnondyn) (length t)) = Inr (dy, dp)"
    and out: "out = (if ndyn + nnondyn = 0 then StateOnly dy else StateAndParams dy dp)"
    by (rule solve_fun_jac_Inr)
  from fun_jac_loop_inv[OF l assms(1) wf_zeros3 wf_zeros3 _ zero_padded_zeros3]
  have wf: "wf_arr3 dp" and z: "zero_padded ndyn dp"
    and d: "dim0 dp = length (rows y)" "dim1 dp = ndyn + nnondyn" "dim2 dp = length t"
    by (simp_all add: zeros3_def)
  have "drop ndyn (node_block dp n ! i) = replicate nnondyn 0"
    if n: "n < length t" and i: "i < length (rows y)" for n i
  proof -
    from wf i d have i': "i < length (cells dp)" and lr: "length (cells dp ! i) = ndyn + nnondyn"
      and lc: "\<forall>j<ndyn + nnondyn. length (cells dp ! i ! j) = length t"
      by (auto simp: wf_arr3_def list_all_length)
    have "drop ndyn (node_block dp n ! i) = map (\<lambda>cell. cell ! n) (drop ndyn (cells dp ! i))"
      using i' by (simp add: node_block_def drop_map)
    also have "\<dots> = replicate nnondyn 0"
    proof (rule nth_equalityI)
      show "length (map (\<lambda>cell. cell ! n) (drop ndyn (cells dp ! i))) = length (replicate nnondyn (0::real))"
        using lr by simp
    next
      fix j assume "j < length (map (\<lambda>cell. cell ! n) (drop ndyn (cells dp ! i)))"
      then have j: "j < nnondyn" using lr by simp
      then have "list_all (\<lambda>x. x = 0) (drop ndyn (cells dp ! i) ! j)"
        using z i' lr by (simp add: zero_padded_def list_all_length)
      moreover have "n < length (drop ndyn (cells dp ! i) ! j)" using lc lr j n by simp
      ultimately have "drop ndyn (cells dp ! i) ! j ! n = 0" by (simp add: list_all_length)
      then show "map (\<lambda>cell. cell ! n) (drop ndyn (cells dp ! i)) ! j = replicate nnondyn 0 ! j"
        using j lr by simp
    qed
    finally show ?thesis .
  qed
  with out assms(3) show ?thesis by auto
qed

theorem solve_fun_jac_padding_is_zero_witness:
  "solve_fun_jac (sample_jac 1) 1 1 1 [0, 1] (Mat 2 [[5, 6]]) [4, 9] (Arr1 []) =
     Inr (StateAndParams (Arr3 1 1 2 [[[2, 2]]]) (Arr3 1 2 2 [[[4, 4], [0, 0]]])) \<and>
   drop 1 (node_block (Arr3 1 2 2 [[[4, 4], [0, 0]]]) 1 ! 0) = replicate 1 0"
proof -
  have wf: "\<forall>s p c. wf_ndarray (snd (sample_jac 1 s p c))"
    by (simp add: sample_jac_def wf_mat_def)
  have b: "solve_fun_jac (sample_jac 1) 1 1 1 [0, 1] (Mat 2 [[5, 6]]) [4, 9] (Arr1 []) =
     Inr (StateAndParams (Arr3 1 1 2 [[[2, 2]]]) (Arr3 1 2 2 [[[4, 4], [0, 0]]]))"
    by code_simp
  from solve_fun_jac_padding_is_zero[OF wf b]
  have "drop 1 (node_block (Arr3 1 2 2 [[[4, 4], [0, 0]]]) 1 ! 0) = replicate 1 0"
    by simp
  with b show ?thesis by simp
qed

text \<open>
  C4 does not hold of the code: with a well-shaped analytic function, two states and
  one quadrature variable, the dynamics-Jacobian closure raises \<^verbatim>\<open>ValueError\<close>,
  since its arrays are allocated with \<^verbatim>\<open>nstates + nquads = 3\<close> rows and the blocks
  have two. With the same analytic function and no quadrature variable the closure
  returns, and the dynamics closure handles the quadrature problem.
\<close>

theorem solve_fun_jac_raises_on_quadrature_problem:
  "length (rows (Mat 1 [[5], [6], [7]])) = 2 + 1 \<and>
   solve_fun_jac (sample_jac 2) 2 1 1 [0] (Mat 1 [[5], [6], [7]]) [4, 9] (Arr1 []) = Inl ValueError \<and>
   solve_fun_jac (sample_jac 2) 2 1 1 [0] (Mat 1 [[5], [6]]) [4, 9] (Arr1 []) =
     Inr (StateAndParams (Arr3 2 2 1 [[[2], [2]], [[2], [2]]])
                         (Arr3 2 2 1 [[[4], [0]], [[4], [0]]])) \<and>
   solve_fun sample_solver 2 1 1 [0] (Mat 1 [[5], [6], [7]]) [4, 9] (Arr1 []) =
     Inr (Mat 1 [[5], [6], [1]])"
  by code_simp

text \<open>
  C3, as stated, fails: with a single state a one-axis parameter sensitivity is left
  as it is, and stacking it beside the two-axis zero block raises.
\<close>

theorem promote_skips_single_state_counterexample:
  "promote 1 (Arr1 [5]) = Arr1 [5] \<and>
   padded_dp 1 0 (Arr1 [5]) = Inl ValueError \<and>
   solve_fun_jac collapsed_jac 1 1 0 [0] (Mat 1 [[5]]) [4] (Arr1 []) = Inl ValueError"
  by code_simp

text \<open>
  C3, amended. Whenever \<^verbatim>\<open>nstates > 1\<close> and the parameter sensitivity returned by
  the analytic function has one axis, it is promoted to a single-column matrix before
  the \<^verbatim>\<open>nnondyn\<close> zero columns are appended; the padding succeeds exactly when the
  vector has \<^verbatim>\<open>nstates\<close> entries. With \<^verbatim>\<open>nstates <= 1\<close> nothing is promoted.
\<close>

theorem promote_collapsed_vector:
  "(1 < nstates \<longrightarrow>
      promote nstates (Arr1 v) = Arr2 (Mat 1 (map (\<lambda>x. [x]) v)) \<and>
      padded_dp nstates nnondyn (Arr1 v) =
        (if length v = nstates
         then Inr (Arr2 (Mat (1 + nnondyn) (map (\<lambda>x. x # replicate nnondyn 0) v)))
         else Inl ValueError)) \<and>
   (nstates \<le> 1 \<longrightarrow> promote nstates raw = raw)"
proof (intro conjI impI)
  assume n: "1 < nstates"
  show p: "promote nstates (Arr1 v) = Arr2 (Mat 1 (map (\<lambda>x. [x]) v))"
    using n by (simp add: promote_def column_of_vector)
  have "map2 (@) (map (\<lambda>x. [x]) v) (replicate (length v) (replicate nnondyn 0)) =
        map (\<lambda>x. x # replicate nnondyn (0::real)) v"
    by (auto simp: list_eq_iff_nth_eq)
  then show "padded_dp nstates nnondyn (Arr1 v) =
        (if length v = nstates
         then Inr (Arr2 (Mat (1 + nnondyn) (map (\<lambda>x. x # replicate nnondyn 0) v)))
         else Inl ValueError)"
    by (auto simp: p padded_dp_def hstack_def hstack_mat_def zeros_def)
next
  assume "nstates \<le> 1"
  then show "promote nstates raw = raw" by (simp add: promote_def)
qed

theorem promote_collapsed_vector_witness:
  "(1::nat) < 2 \<and> promote 2 (Arr1 [5, 6]) = Arr2 (Mat 1 [[5], [6]]) \<and>
   padded_dp 2 1 (Arr1 [5, 6]) = Inr (Arr2 (Mat 2 [[5, 0], [6, 0]])) \<and>
   (1::nat) \<le> 1 \<and> promote 1 (Arr1 [5, 6]) = Arr1 [5, 6]"
proof -
  have h: "(1::nat) < 2" "(1::nat) \<le> 1" by simp_all
  from promote_collapsed_vector[of 2 "[5, 6]" 1] h(1)
  have "promote 2 (Arr1 [5, 6]) = Arr2 (Mat 1 [[5], [6]]) \<and>
        padded_dp 2 1 (Arr1 [5, 6]) = Inr (Arr2 (Mat 2 [[5, 0], [6, 0]]))"
    by simp
  moreover from promote_collapsed_vector[of 1 "[]" 0 "Arr1 [5, 6]"] h(2)
  have "promote 1 (Arr1 [5, 6]) = Arr1 [5, 6]" by simp
  ultimately show ?thesis using h by simp
qed

text \<open>
  C2 does not hold of the code: the dynamics-Jacobian closure passes the whole column
  of a node to the analytic function. With one state and one quadrature variable, at
  the node \<^verbatim>\<open>(5, 7)\<close>, the function that echoes its state argument receives
  \<^verbatim>\<open>[5, 7]\<close>, quadrature entry included, whereas the dynamics closure at the same
  node passes \<^verbatim>\<open>[5]\<close> to the derivative function.
\<close>

theorem solve_fun_jac_passes_quadrature_entries:
  "solve_fun_jac echo_jac 1 0 0 [0] (Mat 1 [[5], [7]]) [] (Arr1 []) =
     Inr (StateOnly (Arr3 2 2 1 [[[5], [7]], [[5], [7]]])) \<and>
   solve_fun sample_solver 1 1 0 [0] (Mat 1 [[5], [7]]) [] (Arr1 []) = Inr (Mat 1 [[5], [1]])"
  by code_simp

text \<open>
  C9. For an engine output whose state matrix has \<^verbatim>\<open>nstates + nquads\<close> rows (so that
  its transpose has that many columns), the result composer stores as \<^verbatim>\<open>y\<close> the first
  \<^verbatim>\<open>nstates\<close> columns and as \<^verbatim>\<open>q\<close> the next \<^verbatim>\<open>nquads\<close> columns of the
  transposed matrix, and the two side by side are that matrix again; \<^verbatim>\<open>lam\<close> is the
  zero matrix of the shape of the new \<^verbatim>\<open>y\<close>; \<^verbatim>\<open>p\<close> and \<^verbatim>\<open>nu\<close> are empty when
  the engine returns no parameter vector, and otherwise its first \<^verbatim>\<open>ndyn\<close> entries
  and the \<^verbatim>\<open>nnondyn\<close> entries after them, which are all the remaining entries when
  the vector has \<^verbatim>\<open>ndyn + nnondyn\<close> entries.
\<close>

theorem compose_splits_engine_output:
  assumes "length (rows (opt_y res)) = nstates + nquads"
    and "compose h solinit nstates nquads ndyn nnondyn res comp_time = (h', out)"
  shows "\<exists>new_y new_q.
           arrays h' ! traj_y (trajs h' ! sol out) = Arr2 new_y \<and>
           arrays h' ! traj_q (trajs h' ! sol out) = Arr2 new_q \<and>
           ncols new_y = nstates \<and> ncols new_q = nquads \<and>
           new_y = cols_slice 0 nstates (transpose_mat (opt_y res)) \<and>
           new_q = cols_slice nstates (nstates + nquads) (transpose_mat (opt_y res)) \<and>
           hstack_mat new_y new_q = Inr (transpose_mat (opt_y res)) \<and>
           arrays h' ! traj_lam (trajs h' ! sol out) = Arr2 (zeros (length (rows new_y)) (ncols new_y)) \<and>
           (case opt_p res of
              None \<Rightarrow> arrays h' ! traj_p (trajs h' ! sol out) = Arr1 [] \<and>
                       arrays h' ! traj_nu (trajs h' ! sol out) = Arr1 []
            | Some pv \<Rightarrow>
                arrays h' ! traj_p (trajs h' ! sol out) = Arr1 (take ndyn pv) \<and>
                arrays h' ! traj_nu (trajs h' ! sol out) = Arr1 (take nnondyn (drop ndyn pv)) \<and>
                (length pv = ndyn + nnondyn \<longrightarrow>
                   take nnondyn (drop ndyn pv) = drop ndyn pv \<and>
                   take ndyn pv @ drop ndyn pv = pv))"
proof -
  let ?yT = "transpose_mat (opt_y res)"
  let ?y = "cols_slice 0 nstates ?yT"
  let ?q = "cols_slice nstates (nstates + nquads) ?yT"
  let ?a = "length (arrays h)"
  have nc: "ncols ?yT = nstates + nquads" using assms(1) by (simp add: ncols_transpose)
  from assms(2) have s: "sol out = length (trajs h)"
    and g: "trajs h' ! length (trajs h) =
       (trajs h ! solinit)\<lparr>traj_t := ?a, traj_y := ?a + 1, traj_q := ?a + 2, traj_lam := ?a + 3,
                traj_p := ?a + 4, traj_nu := ?a + 5, traj_converged := opt_success res\<rparr>"
    and ar: "arrays h' = arrays h @
             [Arr1 (opt_x res), Arr2 ?y, Arr2 ?q, Arr2 (zeros_like ?y),
              Arr1 (case opt_p res of Some pv \<Rightarrow> take ndyn pv | None \<Rightarrow> []),
              Arr1 (case opt_p res of Some pv \<Rightarrow> slice ndyn (ndyn + nnondyn) pv | None \<Rightarrow> [])]"
    by (auto simp: compose_def Let_def)
  have y: "arrays h' ! traj_y (trajs h' ! sol out) = Arr2 ?y"
    and q: "arrays h' ! traj_q (trajs h' ! sol out) = Arr2 ?q"
    and lam: "arrays h' ! traj_lam (trajs h' ! sol out) = Arr2 (zeros_like ?y)"
    and p: "arrays h' ! traj_p (trajs h' ! sol out) =
              Arr1 (case opt_p res of Some pv \<Rightarrow> take ndyn pv | None \<Rightarrow> [])"
    and nu: "arrays h' ! traj_nu (trajs h' ! sol out) =
              Arr1 (case opt_p res of Some pv \<Rightarrow> slice ndyn (ndyn + nnondyn) pv | None \<Rightarrow> [])"
    unfolding s g ar by (simp_all add: nth_append)
  have ny: "ncols ?y = nstates" and nq: "ncols ?q = nquads"
    using nc by (simp_all add: cols_slice_def)
  have hs: "hstack_mat ?y ?q = Inr ?yT" using split_columns[OF wf_transpose nc] .
  show ?thesis
    using y q lam p nu ny nq hs
    by (auto simp: zeros_like_def slice_def split: option.splits)
qed

theorem compose_splits_engine_output_witness:
  "length (rows (Mat 2 [[5, 6], [7, 8]])) = 1 + 1 \<and>
   hstack_mat (Mat 1 [[5], [6]]) (Mat 1 [[7], [8]]) = Inr (transpose_mat (Mat 2 [[5, 6], [7, 8]]))"
proof -
  let ?res = "\<lparr>opt_x = [0, 1], opt_y = Mat 2 [[5, 6], [7, 8]], opt_p = Some [4, 9],
               opt_success = True, opt_message = ''ok'', opt_rms_residuals = [], opt_niter = 1\<rparr>"
  have l: "length (rows (opt_y ?res)) = 1 + 1" by simp
  obtain h' out where c: "compose sample_heap 1 1 1 1 1 ?res 0 = (h', out)"
    by (metis prod.exhaust)
  from compose_splits_engine_output[OF l c]
  have "hstack_mat (cols_slice 0 1 (transpose_mat (opt_y ?res)))
          (cols_slice 1 (1 + 1) (transpose_mat (opt_y ?res))) = Inr (transpose_mat (opt_y ?res))"
    by blast
  moreover have "cols_slice 0 1 (transpose_mat (opt_y ?res)) = Mat 1 [[5], [6]]"
    by code_simp
  moreover have "cols_slice 1 (1 + 1) (transpose_mat (opt_y ?res)) = Mat 1 [[7], [8]]"
    by code_simp
  ultimately show ?thesis by simp
qed

text \<open>
  C10. On a guess whose references are valid, \<^verbatim>\<open>solve\<close> adds nothing to what the
  engine does. When the guess is well shaped, with the counts read off it and the
  augmented guess and parameter vector stacked from it, the result of \<^verbatim>\<open>solve\<close> is
  the outcome of the one engine call on the closures, the mesh, the transposed
  augmented guess, the augmented parameters and \<^verbatim>\<open>self.max_nodes\<close>: if the engine
  raises, \<^verbatim>\<open>solve\<close> raises the same exception; if the engine returns an outcome,
  \<^verbatim>\<open>solve\<close> returns a result record with the success flag, message, residuals and
  iteration count of that outcome, so a failed outcome with a message is returned as
  \<^verbatim>\<open>success = False\<close> with that message. When the guess is not well shaped,
  \<^verbatim>\<open>solve\<close> raises the shape error of numpy.
\<close>

theorem solve_reports_engine_outcome:
  assumes "valid_guess h r"
  shows "(\<forall>nstates nquads self' yq pnu.
            shape1 (arrays h ! traj_y (trajs h ! r)) = Inr nstates \<and>
            (if 0 < np_size (arrays h ! traj_q (trajs h ! r))
             then shape1 (arrays h ! traj_q (trajs h ! r)) = Inr nquads \<and> self' = self
             else nquads = 0 \<and> self' = self\<lparr>quadrature_function := return_nil\<rparr>) \<and>
            (if 0 < nquads
             then hstack (arrays h ! traj_y (trajs h ! r)) (arrays h ! traj_q (trajs h ! r))
             else Inr (arrays h ! traj_y (trajs h ! r))) = Inr yq \<and>
            hstack (arrays h ! traj_p (trajs h ! r)) (arrays h ! traj_nu (trajs h ! r)) = Inr pnu \<longrightarrow>
            snd (solve eng time0 time1 self h r) =
              (case engine_call eng self' (arrays h ! traj_k (trajs h ! r)) nstates nquads
                      (np_size (arrays h ! traj_p (trajs h ! r)))
                      (np_size (arrays h ! traj_nu (trajs h ! r)))
                      (arrays h ! traj_t (trajs h ! r)) (np_T yq) pnu of
                 Inl e \<Rightarrow> Inl e
               | Inr res \<Rightarrow>
                   Inr \<lparr>sol = Suc (length (trajs h)), success = opt_success res,
                        message = opt_message res, rms_residuals = opt_rms_residuals res,
                        niter = opt_niter res\<rparr>)) \<and>
         (\<not> well_shaped h r \<longrightarrow> \<not> returns (snd (solve eng time0 time1 self h r)))"
proof -
  obtain h1 c where d: "deepcopy h r = (h1, c)" by (cases "deepcopy h r") auto
  note v = deepcopy_field_values[OF d assms]
  have len: "length (trajs h1) = Suc (length (trajs h))" using deepcopy_props(3)[OF d] by simp
  let ?y = "arrays h ! traj_y (trajs h ! r)"
  let ?q = "arrays h ! traj_q (trajs h ! r)"
  let ?p = "arrays h ! traj_p (trajs h ! r)"
  let ?nu = "arrays h ! traj_nu (trajs h ! r)"
  show ?thesis
  proof (intro conjI allI impI)
    fix nstates nquads self' yq pnu
    assume a: "shape1 ?y = Inr nstates \<and>
            (if 0 < np_size ?q then shape1 ?q = Inr nquads \<and> self' = self
             else nquads = 0 \<and> self' = self\<lparr>quadrature_function := return_nil\<rparr>) \<and>
            (if 0 < nquads then hstack ?y ?q else Inr ?y) = Inr yq \<and>
            hstack ?p ?nu = Inr pnu"
    then have y: "shape1 ?y = Inr nstates"
      and yq: "(if 0 < nquads then hstack ?y ?q else Inr ?y) = Inr yq"
      and pnu: "hstack ?p ?nu = Inr pnu" by simp_all
    have s: "solve eng time0 time1 self h r = solve_rest eng time0 time1 self' h1 c nstates nquads"
      using a d by (auto simp: solve_def v split: if_splits)
    show "snd (solve eng time0 time1 self h r) =
              (case engine_call eng self' (arrays h ! traj_k (trajs h ! r)) nstates nquads
                      (np_size ?p) (np_size ?nu) (arrays h ! traj_t (trajs h ! r)) (np_T yq) pnu of
                 Inl e \<Rightarrow> Inl e
               | Inr res \<Rightarrow>
                   Inr \<lparr>sol = Suc (length (trajs h)), success = opt_success res,
                        message = opt_message res, rms_residuals = opt_rms_residuals res,
                        niter = opt_niter res\<rparr>)"
      unfolding s
      using solve_rest_result[of nquads h1 c yq pnu eng time0 time1 self' nstates, unfolded v len, OF yq pnu] .
  next
    assume w: "\<not> well_shaped h r"
    show "\<not> returns (snd (solve eng time0 time1 self h r))"
    proof (cases "shape1 ?y")
      case (Inl e)
      then show ?thesis using d by (simp add: solve_def v)
    next
      case y: (Inr nstates)
      show ?thesis
      proof (cases "0 < np_size ?q")
        case False
        with w y have "\<not> returns (hstack ?p ?nu)" by (simp add: well_shaped_def Let_def)
        then have "\<not> returns (snd (solve_rest eng time0 time1
             (self\<lparr>quadrature_function := return_nil\<rparr>) h1 c nstates 0))"
          by (intro solve_rest_raises) (simp add: v)
        then show ?thesis using d y False by (simp add: solve_def v)
      next
        case True
        show ?thesis
        proof (cases "shape1 ?q")
          case (Inl e)
          then show ?thesis using d y True by (simp add: solve_def v)
        next
          case q: (Inr nquads)
          from shape1_size_pos[OF q True] have nq: "0 < nquads" .
          from w y True q have "\<not> returns (hstack ?y ?q) \<or> \<not> returns (hstack ?p ?nu)"
            by (auto simp: well_shaped_def Let_def)
          then have "\<not> returns (snd (solve_rest eng time0 time1 self h1 c nstates nquads))"
            using nq by (intro solve_rest_raises) (auto simp: v)
          then show ?thesis using d y True q by (simp add: solve_def v)
        qed
      qed
    qed
  qed
qed

theorem solve_reports_engine_outcome_witness:
  "valid_guess sample_heap 0 \<and> max_nodes sample_solver = 3 \<and>
   engine_call failing_engine (sample_solver\<lparr>quadrature_function := return_nil\<rparr>) (Arr1 []) 1 0 0 0
     (Arr1 [0, 1]) (np_T (Arr2 (Mat 1 [[5], [6]]))) (Arr1 []) = Inr failed_outcome \<and>
   snd (solve failing_engine 0 1 sample_solver sample_heap 0) =
     Inr \<lparr>sol = 3, success = False,
          message = ''The maximum number of mesh nodes is exceeded.'',
          rms_residuals = [1], niter = 1\<rparr>"
proof -
  have v: "valid_guess sample_heap 0"
    by (simp add: valid_guess_def sample_heap_def array_refs_def)
  have e: "engine_call failing_engine (sample_solver\<lparr>quadrature_function := return_nil\<rparr>) (Arr1 []) 1 0 0 0
     (Arr1 [0, 1]) (np_T (Arr2 (Mat 1 [[5], [6]]))) (Arr1 []) = Inr failed_outcome"
    by (simp add: engine_call_def failing_engine_def)
  have vals: "arrays sample_heap ! traj_y (trajs sample_heap ! 0) = Arr2 (Mat 1 [[5], [6]])"
    "arrays sample_heap ! traj_q (trajs sample_heap ! 0) = Arr1 []"
    "arrays sample_heap ! traj_p (trajs sample_heap ! 0) = Arr1 []"
    "arrays sample_heap ! traj_nu (trajs sample_heap ! 0) = Arr1 []"
    "arrays sample_heap ! traj_k (trajs sample_heap ! 0) = Arr1 []"
    "arrays sample_heap ! traj_t (trajs sample_heap ! 0) = Arr1 [0, 1]"
    "length (trajs sample_heap) = 2"
    by (simp_all add: sample_heap_def)
  from conjunct1[OF solve_reports_engine_outcome[OF v, where eng = failing_engine and ?time0.0 = 0
        and ?time1.0 = 1 and self = sample_solver],
      rule_format, where nstates = 1 and nquads = 0
        and self' = "sample_solver\<lparr>quadrature_function := return_nil\<rparr>"
        and yq = "Arr2 (Mat 1 [[5], [6]])" and pnu = "Arr1 []"]
  have "snd (solve failing_engine 0 1 sample_solver sample_heap 0) =
     Inr \<lparr>sol = 3, success = False,
          message = ''The maximum number of mesh nodes is exceeded.'',
          rms_residuals = [1], niter = 1\<rparr>"
    by (simp add: vals hstack_def engine_call_def failing_engine_def failed_outcome_def)
  with v e show ?thesis by (simp add: sample_solver_def)
qed

text \<open>
  C1 does not hold of the code: a call whose guess has an empty quadrature matrix
  stores \<^verbatim>\<open>return_nil\<close> in the attribute \<^verbatim>\<open>quadrature_function\<close> of the solver
  object (line 43), and the attribute keeps that value. A later call on a guess with one
  quadrature variable then returns a quadrature matrix without columns, where the same
  call on the untouched solver object returns one column.
\<close>

theorem solve_overwrites_quadrature_function:
  "np_size (arrays sample_heap ! traj_q (trajs sample_heap ! 0)) = 0 \<and>
   quadrature_function sample_solver [5] [] (Arr1 []) = [1] \<and>
   quadrature_function (fst (fst (solve probe_engine 0 1 sample_solver sample_heap 0)))
     [5] [] (Arr1 []) = [] \<and>
   solution_q (solve probe_engine 0 1 sample_solver sample_heap 1) =
     Some (Arr2 (Mat 1 [[1], [1]])) \<and>
   solution_q (solve probe_engine 0 1
       (fst (fst (solve probe_engine 0 1 sample_solver sample_heap 0)))
       (snd (fst (solve probe_engine 0 1 sample_solver sample_heap 0))) 1) =
     Some (Arr2 (Mat 0 [[], []]))"
  by code_simp

end
